theory Spec2Isabelle
  imports Main
begin

section \<open>Data model of the bookmark client (src/lib/bookmarkClient.ts)\<close>

text \<open>
  A \<open>Bookmark\<close> is the TypeScript object type of the same name. Strings are byte
  strings; timestamps stay the ISO strings the client stores. The fields \<open>id\<close> and
  \<open>notes\<close> are called \<open>bookmark_id\<close> and \<open>bookmark_notes\<close> here (\<open>id\<close> is HOL's
  identity function, \<open>notes\<close> an Isar keyword).
  \<open>visitCount\<close> is a JavaScript number and is only ever set from integers.

  \<open>lastVisitedAt\<close> is the one optional key of a \<open>Bookmark\<close>. A JavaScript object
  may lack the key, or hold it with the value \<open>undefined\<close>, or hold a string; reading
  the key does not tell the first two apart, but spreading and JSON do, so all three are
  kept.
\<close>

datatype 'a OptionalKey = Absent | Undefined | Present 'a

record Bookmark =
  bookmark_id :: string
  title :: string
  url :: string
  description :: string
  bookmark_notes :: string
  tags :: "string list"
  folder :: string
  createdAt :: string
  updatedAt :: string
  visitCount :: int
  lastVisitedAt :: "string OptionalKey"

text \<open>
  \<open>Partial<Bookmark>\<close>: every key may be missing (\<open>None\<close>, and \<open>Absent\<close> for
  \<open>lastVisitedAt\<close>). The keys that are mandatory in \<open>Bookmark\<close> hold a value of their
  type when they are present; \<open>lastVisitedAt\<close> may also be present with \<open>undefined\<close>.
\<close>

record PartialBookmark =
  p_id :: "string option"
  p_title :: "string option"
  p_url :: "string option"
  p_description :: "string option"
  p_notes :: "string option"
  p_tags :: "string list option"
  p_folder :: "string option"
  p_createdAt :: "string option"
  p_updatedAt :: "string option"
  p_visitCount :: "int option"
  p_lastVisitedAt :: "string OptionalKey"

record BookmarkDraft =
  d_title :: string
  d_url :: string
  d_description :: "string option"
  d_notes :: "string option"
  d_tags :: "string list option"
  d_folder :: "string option"

datatype PendingOperation =
    Create Bookmark
  | Update string PartialBookmark
  | Delete string

text \<open>
  The pending log holds objects, and \<open>sync\<close> removes an operation by object identity
  (\<open>pendingOp === operation\<close>). An entry of the log is therefore a pair of a reference
  (the identity of the object) and the operation it holds.
\<close>

type_synonym PendingEntry = "nat \<times> PendingOperation"

subsection \<open>JavaScript helpers\<close>

text \<open>
  \<open>{ ...b, ...u }\<close>: the keys present in \<open>u\<close> override those of \<open>b\<close>, also a key
  that is present with \<open>undefined\<close>.
\<close>

definition spread :: "Bookmark \<Rightarrow> PartialBookmark \<Rightarrow> Bookmark" where
  "spread b u =
     \<lparr> bookmark_id = (case p_id u of None \<Rightarrow> bookmark_id b | Some v \<Rightarrow> v),
       title = (case p_title u of None \<Rightarrow> title b | Some v \<Rightarrow> v),
       url = (case p_url u of None \<Rightarrow> url b | Some v \<Rightarrow> v),
       description = (case p_description u of None \<Rightarrow> description b | Some v \<Rightarrow> v),
       bookmark_notes = (case p_notes u of None \<Rightarrow> bookmark_notes b | Some v \<Rightarrow> v),
       tags = (case p_tags u of None \<Rightarrow> tags b | Some v \<Rightarrow> v),
       folder = (case p_folder u of None \<Rightarrow> folder b | Some v \<Rightarrow> v),
       createdAt = (case p_createdAt u of None \<Rightarrow> createdAt b | Some v \<Rightarrow> v),
       updatedAt = (case p_updatedAt u of None \<Rightarrow> updatedAt b | Some v \<Rightarrow> v),
       visitCount = (case p_visitCount u of None \<Rightarrow> visitCount b | Some v \<Rightarrow> v),
       lastVisitedAt = (case p_lastVisitedAt u of
                          Absent \<Rightarrow> lastVisitedAt b
                        | Undefined \<Rightarrow> Undefined
                        | Present v \<Rightarrow> Present v) \<rparr>"

text \<open>\<open>Array.prototype.findIndex\<close>; \<open>None\<close> stands for the result \<open>-1\<close>.\<close>

fun findIndex :: "('a \<Rightarrow> bool) \<Rightarrow> 'a list \<Rightarrow> nat option" where
  "findIndex P [] = None"
| "findIndex P (x # xs) = (if P x then Some 0 else map_option Suc (findIndex P xs))"

text \<open>\<open>xs.splice(idx, 1)\<close> for an index in range.\<close>

definition splice1 :: "nat \<Rightarrow> 'a list \<Rightarrow> 'a list" where
  "splice1 idx xs = take idx xs @ drop (Suc idx) xs"

section \<open>Strings, tags and sorting\<close>

text \<open>
  \<open>String.prototype.trim\<close> on byte strings: the ASCII white space and line terminators
  (tab, line feed, vertical tab, form feed, carriage return, space) are stripped from
  both ends. Non-ASCII white space is outside this model.
\<close>

definition isSpace :: "char \<Rightarrow> bool" where
  "isSpace c = (c \<in> set [CHR 0x09, CHR 0x0A, CHR 0x0B, CHR 0x0C, CHR 0x0D, CHR 0x20])"

definition trim :: "string \<Rightarrow> string" where
  "trim s = rev (dropWhile isSpace (rev (dropWhile isSpace s)))"

text \<open>\<open>String.prototype.toLowerCase\<close> on ASCII letters; other bytes are kept.\<close>

definition toLowerChar :: "char \<Rightarrow> char" where
  "toLowerChar c =
     (let n = (of_char c :: nat) in if 65 \<le> n \<and> n \<le> 90 then char_of (n + 32) else c)"

definition toLowerCase :: "string \<Rightarrow> string" where
  "toLowerCase s = map toLowerChar s"

text \<open>
  \<open>Array.prototype.sort(cmp)\<close> is stable; for a consistent comparator its result is
  the stable sorted arrangement, computed here by insertion from the right: an element
  goes before the first later element it does not compare greater than.
\<close>

fun insertBy :: "('a \<Rightarrow> 'a \<Rightarrow> int) \<Rightarrow> 'a \<Rightarrow> 'a list \<Rightarrow> 'a list" where
  "insertBy cmp x [] = [x]"
| "insertBy cmp x (y # ys) = (if cmp x y \<le> 0 then x # y # ys else y # insertBy cmp x ys)"

definition sortBy :: "('a \<Rightarrow> 'a \<Rightarrow> int) \<Rightarrow> 'a list \<Rightarrow> 'a list" where
  "sortBy cmp xs = foldr (insertBy cmp) xs []"

section \<open>Environment and client state\<close>

text \<open>
  The remote service is reached through \<open>apiRequest\<close>. A request is the method with
  its path and body; a response is what \<open>apiRequest\<close> hands back: it throws
  (\<open>Failed\<close>: network error or a status that is not ok), returns \<open>null\<close> (status 204,
  or any falsy JSON value), a JSON object read as a bookmark record (also when wrapped
  as \<open>{bookmark: ...}\<close>), or a list of records (an array, or \<open>{bookmarks: [...]}\<close>).
\<close>

datatype Request =
    GetList
  | Post Bookmark
  | Put string PartialBookmark
  | DeleteReq string

datatype Response =
    Failed
  | Null
  | Saved PartialBookmark
  | Listing "PartialBookmark list"

datatype Error = NotFound | RemoteError

text \<open>
  Everything the client reads from outside. \<open>navigator\<close> is \<open>None\<close> when
  \<open>typeof navigator\<close> is \<open>undefined\<close>, otherwise the value of \<open>navigator.onLine\<close>.
  The response of the remote service may depend on the requests made before.
  \<open>clock n\<close> and \<open>uuid n\<close> are the time and the fresh identifier read at the \<open>n\<close>-th
  step that reads them. \<open>getTime s\<close> is \<open>new Date(s).getTime()\<close>, with \<open>None\<close> for
  the \<open>NaN\<close> of a string that denotes no date. \<open>localeCompare\<close> is the collation of
  the host. \<open>structuredClone\<close> tells whether the host has that function.
  \<open>hostSort\<close> is what \<open>Array.prototype.sort\<close> of the host does to a fetched list for
  which the comparator of \<open>fetchRemote\<close> is not consistent.
\<close>

record Env =
  navigator :: "bool option"
  isBrowser :: bool
  api :: "Request list \<Rightarrow> Request \<Rightarrow> Response"
  clock :: "nat \<Rightarrow> string"
  uuid :: "nat \<Rightarrow> string"
  getTime :: "string \<Rightarrow> int option"
  localeCompare :: "string \<Rightarrow> string \<Rightarrow> int"
  structuredClone :: bool
  hostSort :: "Bookmark list \<Rightarrow> Bookmark list"

text \<open>
  The fields of a \<open>BookmarkClient\<close> (\<open>bookmarks\<close>, \<open>pending\<close>), the three keys of
  \<open>localStorage\<close> it writes, and what it does to the outside: the requests sent
  (\<open>calls\<close>) and the snapshots handed to the listeners (\<open>notified\<close>). \<open>nextRef\<close> is
  the next unused object reference, \<open>ticks\<close> the number of steps that read the clock or
  the identifier source. Operations run one after the other, never interleaved.
\<close>

record State =
  bookmarks :: "Bookmark list"
  pending :: "PendingEntry list"
  nextRef :: nat
  storedBookmarks :: "Bookmark list"
  storedPending :: "PendingOperation list"
  lastSync :: "string option"
  calls :: "Request list"
  notified :: "Bookmark list list"
  ticks :: nat

section \<open>Copies\<close>

text \<open>
  \<open>JSON.parse(JSON.stringify(v))\<close> drops a key that holds \<open>undefined\<close> and keeps the
  rest of these values.
\<close>

definition jsonBookmark :: "Bookmark \<Rightarrow> Bookmark" where
  "jsonBookmark b =
     (case lastVisitedAt b of Undefined \<Rightarrow> b\<lparr>lastVisitedAt := Absent\<rparr> | _ \<Rightarrow> b)"

definition jsonPartial :: "PartialBookmark \<Rightarrow> PartialBookmark" where
  "jsonPartial u =
     (case p_lastVisitedAt u of Undefined \<Rightarrow> u\<lparr>p_lastVisitedAt := Absent\<rparr> | _ \<Rightarrow> u)"

fun jsonOperation :: "PendingOperation \<Rightarrow> PendingOperation" where
  "jsonOperation (Create bookmark) = Create (jsonBookmark bookmark)"
| "jsonOperation (Update i updates) = Update i (jsonPartial updates)"
| "jsonOperation (Delete i) = Delete i"

text \<open>
  \<open>clone\<close>: \<open>structuredClone\<close> where the host has it (it keeps every own key), the
  JSON round trip otherwise.
\<close>

definition clone :: "Env \<Rightarrow> Bookmark list \<Rightarrow> Bookmark list" where
  "clone env value = (if structuredClone env then value else map jsonBookmark value)"

section \<open>The local projector: \<open>applyPendingLocally\<close>\<close>

text \<open>
  The body of the \<open>for\<close> loop of \<open>applyPendingLocally\<close> (the constructor's
  \<open>applyPending\<close> has the same body). The three \<open>if\<close> statements test the tag of the
  operation, so exactly one of them fires.
\<close>

fun applyOperation :: "Bookmark list \<Rightarrow> PendingOperation \<Rightarrow> Bookmark list" where
  "applyOperation result (Create bookmark) =
     (if list_ex (\<lambda>b. bookmark_id b = bookmark_id bookmark) result
      then result else result @ [bookmark])"
| "applyOperation result (Update i updates) =
     (case findIndex (\<lambda>b. bookmark_id b = i) result of
        None \<Rightarrow> result
      | Some idx \<Rightarrow> result[idx := spread (result ! idx) updates])"
| "applyOperation result (Delete i) =
     (case findIndex (\<lambda>b. bookmark_id b = i) result of
        None \<Rightarrow> result
      | Some idx \<Rightarrow> splice1 idx result)"

text \<open>The \<open>for\<close> loop over \<open>this.pending\<close>, from the front, on the array \<open>result\<close>.\<close>

fun applyOperations :: "PendingEntry list \<Rightarrow> Bookmark list \<Rightarrow> Bookmark list" where
  "applyOperations [] result = result"
| "applyOperations (operation # rest) result =
     applyOperations rest (applyOperation result (snd operation))"

text \<open>
  \<open>applyPendingLocally\<close> with \<open>this.pending\<close> as its second argument: \<open>result\<close> starts
  as a clone of \<open>base\<close>.
\<close>

definition applyPendingLocally :: "Env \<Rightarrow> PendingEntry list \<Rightarrow> Bookmark list \<Rightarrow> Bookmark list" where
  "applyPendingLocally env log base = applyOperations log (clone env base)"

definition noUpdates :: PartialBookmark where
  "noUpdates =
     \<lparr> p_id = None, p_title = None, p_url = None, p_description = None, p_notes = None,
       p_tags = None, p_folder = None, p_createdAt = None, p_updatedAt = None,
       p_visitCount = None, p_lastVisitedAt = Absent \<rparr>"

text \<open>A whole bookmark used as a \<open>Partial<Bookmark>\<close>: the keys it has.\<close>

definition full :: "Bookmark \<Rightarrow> PartialBookmark" where
  "full b =
     \<lparr> p_id = Some (bookmark_id b), p_title = Some (title b), p_url = Some (url b),
       p_description = Some (description b), p_notes = Some (bookmark_notes b),
       p_tags = Some (tags b), p_folder = Some (folder b),
       p_createdAt = Some (createdAt b), p_updatedAt = Some (updatedAt b),
       p_visitCount = Some (visitCount b), p_lastVisitedAt = lastVisitedAt b \<rparr>"

definition normalizeTags :: "Env \<Rightarrow> string list \<Rightarrow> string list" where
  "normalizeTags env ts =
     sortBy (localeCompare env)
       (rev (remdups (rev (filter (\<lambda>tag. tag \<noteq> []) (map trim ts)))))"

text \<open>
  \<open>parseBookmark\<close> at step \<open>n\<close>: \<open>now\<close> is \<open>clock env n\<close> and \<open>createId()\<close> is
  \<open>uuid env n\<close>. An empty title or url is kept as it is: \<open>??\<close> only replaces a missing
  key. The result always has the key \<open>lastVisitedAt\<close>, with \<open>undefined\<close> when \<open>raw\<close>
  gives no string for it.
\<close>

definition parseBookmark :: "Env \<Rightarrow> nat \<Rightarrow> PartialBookmark \<Rightarrow> Bookmark" where
  "parseBookmark env n raw =
     \<lparr> bookmark_id = (case p_id raw of None \<Rightarrow> uuid env n | Some v \<Rightarrow> v),
       title = (case p_title raw of None \<Rightarrow> ''Untitled'' | Some v \<Rightarrow> trim v),
       url = (case p_url raw of None \<Rightarrow> [] | Some v \<Rightarrow> trim v),
       description = (case p_description raw of None \<Rightarrow> [] | Some v \<Rightarrow> trim v),
       bookmark_notes = (case p_notes raw of None \<Rightarrow> [] | Some v \<Rightarrow> trim v),
       tags = normalizeTags env (case p_tags raw of None \<Rightarrow> [] | Some v \<Rightarrow> v),
       folder = (case p_folder raw of None \<Rightarrow> [] | Some v \<Rightarrow> trim v),
       createdAt = (case p_createdAt raw of None \<Rightarrow> clock env n | Some v \<Rightarrow> v),
       updatedAt = (case p_updatedAt raw of None \<Rightarrow> clock env n | Some v \<Rightarrow> v),
       visitCount = (case p_visitCount raw of None \<Rightarrow> 0 | Some v \<Rightarrow> v),
       lastVisitedAt = (case p_lastVisitedAt raw of
                          Present v \<Rightarrow> Present v
                        | _ \<Rightarrow> Undefined) \<rparr>"

text \<open>
  The argument of \<open>parseBookmark(savedData.bookmark ?? savedData)\<close> under
  \<open>if (savedData)\<close>: nothing for \<open>null\<close>; an array is truthy and has none of the keys.
\<close>

fun savedRecord :: "Response \<Rightarrow> PartialBookmark option" where
  "savedRecord (Saved raw) = Some raw"
| "savedRecord (Listing raws) = Some noUpdates"
| "savedRecord Null = None"
| "savedRecord Failed = None"

text \<open>\<open>persist\<close> writes both arrays as JSON.\<close>

definition persist :: "Env \<Rightarrow> State \<Rightarrow> State" where
  "persist env s =
     (if isBrowser env
      then s\<lparr>storedBookmarks := map jsonBookmark (bookmarks s),
             storedPending := map (\<lambda>operation. jsonOperation (snd operation)) (pending s)\<rparr>
      else s)"

text \<open>\<open>getSnapshot\<close> is \<open>clone(this.bookmarks)\<close>; \<open>notify\<close> hands it to the listeners.\<close>

definition getSnapshot :: "Env \<Rightarrow> State \<Rightarrow> Bookmark list" where
  "getSnapshot env s = clone env (bookmarks s)"

definition notify :: "Env \<Rightarrow> State \<Rightarrow> State" where
  "notify env s = s\<lparr>notified := notified s @ [getSnapshot env s]\<rparr>"

definition apiRequest :: "Env \<Rightarrow> Request \<Rightarrow> State \<Rightarrow> Response \<times> State" where
  "apiRequest env req s = (api env (calls s) req, s\<lparr>calls := calls s @ [req]\<rparr>)"

definition recordPending :: "Env \<Rightarrow> PendingOperation \<Rightarrow> State \<Rightarrow> State" where
  "recordPending env operation s =
     persist env (s\<lparr>pending := pending s @ [(nextRef s, operation)], nextRef := Suc (nextRef s)\<rparr>)"

definition removePending :: "Env \<Rightarrow> (PendingEntry \<Rightarrow> bool) \<Rightarrow> State \<Rightarrow> State" where
  "removePending env predicate s =
     persist env (s\<lparr>pending := filter (\<lambda>operation. \<not> predicate operation) (pending s)\<rparr>)"

definition upsertLocal :: "Bookmark \<Rightarrow> State \<Rightarrow> State" where
  "upsertLocal bookmark s =
     (case findIndex (\<lambda>item. bookmark_id item = bookmark_id bookmark) (bookmarks s) of
        Some idx \<Rightarrow> s\<lparr>bookmarks := (bookmarks s)[idx := bookmark]\<rparr>
      | None \<Rightarrow> s\<lparr>bookmarks := bookmarks s @ [bookmark]\<rparr>)"

text \<open>\<open>if (savedData) { const saved = parseBookmark(...); this.upsertLocal(saved); }\<close>\<close>

definition absorb :: "Env \<Rightarrow> Response \<Rightarrow> State \<Rightarrow> State" where
  "absorb env resp s =
     (case savedRecord resp of
        None \<Rightarrow> s
      | Some raw \<Rightarrow> upsertLocal (parseBookmark env (ticks s) raw) (s\<lparr>ticks := Suc (ticks s)\<rparr>))"

text \<open>\<open>safeLocalStorageSet(LAST_SYNC_KEY, new Date().toISOString())\<close>\<close>

definition setLastSync :: "Env \<Rightarrow> State \<Rightarrow> State" where
  "setLastSync env s =
     (if isBrowser env
      then s\<lparr>lastSync := Some (clock env (ticks s)), ticks := Suc (ticks s)\<rparr>
      else s\<lparr>ticks := Suc (ticks s)\<rparr>)"

text \<open>\<open>data.map((item) => parseBookmark(item))\<close>, the first call at step \<open>n\<close>.\<close>

definition parseListing :: "Env \<Rightarrow> nat \<Rightarrow> PartialBookmark list \<Rightarrow> Bookmark list" where
  "parseListing env n raws =
     map (\<lambda>(k, item). parseBookmark env (n + k) item) (zip [0..<length raws] raws)"

text \<open>
  \<open>list.sort((a, b) => new Date(b.updatedAt).getTime() - new Date(a.updatedAt).getTime())\<close>.
  The comparator yields \<open>NaN\<close> when one of the two dates does not parse, and \<open>sort\<close>
  reads \<open>NaN\<close> as \<open>+0\<close>. When every \<open>updatedAt\<close> denotes a date, or when no two
  entries compare different, the comparator is consistent and the result is the stable
  sorted list. Otherwise an entry without a date compares equal to two entries that
  compare different: the comparator is not consistent, the order is
  implementation-defined, and the result is whatever the host makes of the list.
\<close>

definition updatedTime :: "Env \<Rightarrow> Bookmark \<Rightarrow> int option" where
  "updatedTime env b = getTime env (updatedAt b)"

definition compareUpdatedAt :: "Env \<Rightarrow> Bookmark \<Rightarrow> Bookmark \<Rightarrow> int" where
  "compareUpdatedAt env a b =
     (case (updatedTime env b, updatedTime env a) of
        (Some tb, Some ta) \<Rightarrow> tb - ta
      | _ \<Rightarrow> 0)"

definition consistentDates :: "Env \<Rightarrow> Bookmark list \<Rightarrow> bool" where
  "consistentDates env list =
     (list_all (\<lambda>b. updatedTime env b \<noteq> None) list \<or>
      list_all (\<lambda>a. list_all (\<lambda>b. compareUpdatedAt env a b = 0) list) list)"

definition sortByUpdatedAt :: "Env \<Rightarrow> Bookmark list \<Rightarrow> Bookmark list" where
  "sortByUpdatedAt env list =
     (if consistentDates env list then sortBy (compareUpdatedAt env) list
      else hostSort env list)"

text \<open>
  \<open>fetchRemote\<close>: \<open>None\<close> when the request throws, otherwise the parsed list after the
  sort.
\<close>

definition fetchRemote :: "Env \<Rightarrow> State \<Rightarrow> Bookmark list option \<times> State" where
  "fetchRemote env s =
     (let (data, s1) = apiRequest env GetList s
      in case data of
           Failed \<Rightarrow> (None, s1)
         | Listing raws \<Rightarrow>
             (Some (sortByUpdatedAt env (parseListing env (ticks s1) raws)),
              s1\<lparr>ticks := ticks s1 + length raws\<rparr>)
         | _ \<Rightarrow> (Some [], s1))"

definition load :: "Env \<Rightarrow> State \<Rightarrow> Bookmark list \<times> State" where
  "load env s =
     (case fetchRemote env s of
        (Some remote, s1) \<Rightarrow>
          (let s2 = notify env (setLastSync env
                      (persist env (s1\<lparr>bookmarks := applyPendingLocally env (pending s1) remote\<rparr>)))
           in (getSnapshot env s2, s2))
      | (None, s1) \<Rightarrow> (getSnapshot env s1, s1))"

section \<open>Mutations\<close>

text \<open>
  A mutation returns the snapshot or the error it throws, together with the state it
  leaves behind (a throw after the optimistic write leaves the write in place).
\<close>

definition newBookmark :: "Env \<Rightarrow> State \<Rightarrow> BookmarkDraft \<Rightarrow> Bookmark" where
  "newBookmark env s draft =
     parseBookmark env (ticks s)
       \<lparr> p_id = Some (uuid env (ticks s)),
         p_title = Some (d_title draft),
         p_url = Some (d_url draft),
         p_description = Some (case d_description draft of None \<Rightarrow> [] | Some v \<Rightarrow> v),
         p_notes = Some (case d_notes draft of None \<Rightarrow> [] | Some v \<Rightarrow> v),
         p_tags = Some (case d_tags draft of None \<Rightarrow> [] | Some v \<Rightarrow> v),
         p_folder = Some (case d_folder draft of None \<Rightarrow> [] | Some v \<Rightarrow> v),
         p_createdAt = Some (clock env (ticks s)),
         p_updatedAt = Some (clock env (ticks s)),
         p_visitCount = Some 0,
         p_lastVisitedAt = Absent \<rparr>"

fun isCreateOf :: "string \<Rightarrow> PendingOperation \<Rightarrow> bool" where
  "isCreateOf i (Create b) = (bookmark_id b = i)"
| "isCreateOf i _ = False"

fun isUpdateOf :: "string \<Rightarrow> PendingOperation \<Rightarrow> bool" where
  "isUpdateOf i (Update j u) = (j = i)"
| "isUpdateOf i _ = False"

fun isDeleteOf :: "string \<Rightarrow> PendingOperation \<Rightarrow> bool" where
  "isDeleteOf i (Delete j) = (j = i)"
| "isDeleteOf i _ = False"

text \<open>
  The \<open>try\<close>/\<open>catch\<close> around the remote call of \<open>createBookmark\<close> and
  \<open>updateBookmark\<close>: a throw is passed on only when \<open>navigator.onLine\<close> holds.
\<close>

definition settle ::
  "Env \<Rightarrow> (PendingOperation \<Rightarrow> bool) \<Rightarrow> Response \<times> State \<Rightarrow> (Error + Bookmark list) \<times> State" where
  "settle env mine rs =
     (case rs of (savedData, s) \<Rightarrow>
        (case savedData of
           Failed \<Rightarrow> (if navigator env = Some True then Inl RemoteError else Inr (getSnapshot env s), s)
         | _ \<Rightarrow>
           (case savedRecord savedData of
              None \<Rightarrow> (Inr (getSnapshot env s), s)
            | Some raw \<Rightarrow>
                (let s1 = notify env (persist env
                            (removePending env (\<lambda>operation. mine (snd operation))
                               (absorb env savedData s)))
                 in (Inr (getSnapshot env s1), s1)))))"

definition createBookmark :: "Env \<Rightarrow> State \<Rightarrow> BookmarkDraft \<Rightarrow> (Error + Bookmark list) \<times> State" where
  "createBookmark env s draft =
     (let bookmark = newBookmark env s draft;
          s1 = notify env (recordPending env (Create bookmark)
                 (s\<lparr>bookmarks := bookmarks s @ [bookmark], ticks := Suc (ticks s)\<rparr>))
      in settle env (isCreateOf (bookmark_id bookmark)) (apiRequest env (Post bookmark) s1))"

definition updateBookmark ::
  "Env \<Rightarrow> State \<Rightarrow> string \<Rightarrow> PartialBookmark \<Rightarrow> (Error + Bookmark list) \<times> State" where
  "updateBookmark env s i updates =
     (case findIndex (\<lambda>bookmark. bookmark_id bookmark = i) (bookmarks s) of
        None \<Rightarrow> (Inl NotFound, s)
      | Some idx \<Rightarrow>
          (let current = bookmarks s ! idx;
               merged = (spread current updates)
                 \<lparr> tags := normalizeTags env
                            (case p_tags updates of None \<Rightarrow> tags current | Some v \<Rightarrow> v),
                   folder := (case p_folder updates of None \<Rightarrow> folder current | Some v \<Rightarrow> trim v),
                   updatedAt := clock env (ticks s) \<rparr>;
               s1 = notify env (recordPending env (Update i (full merged))
                      (s\<lparr>bookmarks := (bookmarks s)[idx := merged], ticks := Suc (ticks s)\<rparr>))
           in settle env (isUpdateOf i) (apiRequest env (Put i (full merged)) s1)))"

definition deleteBookmark :: "Env \<Rightarrow> State \<Rightarrow> string \<Rightarrow> (Error + Bookmark list) \<times> State" where
  "deleteBookmark env s i =
     (let s1 = notify env (recordPending env (Delete i)
                 (s\<lparr>bookmarks := filter (\<lambda>bookmark. bookmark_id bookmark \<noteq> i) (bookmarks s)\<rparr>))
      in case apiRequest env (DeleteReq i) s1 of
           (Failed, s2) \<Rightarrow>
             (if navigator env = Some True then Inl RemoteError else Inr (getSnapshot env s2), s2)
         | (_, s2) \<Rightarrow>
             (let s3 = notify env (persist env
                         (removePending env (\<lambda>operation. isDeleteOf i (snd operation)) s2))
              in (Inr (getSnapshot env s3), s3)))"

definition trackVisit :: "Env \<Rightarrow> State \<Rightarrow> string \<Rightarrow> (Error + Bookmark list) \<times> State" where
  "trackVisit env s i =
     (case find (\<lambda>item. bookmark_id item = i) (bookmarks s) of
        None \<Rightarrow> (Inl NotFound, s)
      | Some bookmark \<Rightarrow>
          updateBookmark env (s\<lparr>ticks := Suc (ticks s)\<rparr>) i
            (noUpdates\<lparr> p_visitCount := Some (visitCount bookmark + 1),
                        p_lastVisitedAt := Present (clock env (ticks s)) \<rparr>))"

text \<open>
  \<open>importBookmarks\<close>: the loop with its two counters. Whether \<open>createBookmark\<close>
  returns or throws, \<open>imported\<close> is incremented.
\<close>

fun importLoop ::
  "Env \<Rightarrow> BookmarkDraft list \<Rightarrow> nat \<Rightarrow> nat \<Rightarrow> State \<Rightarrow> (nat \<times> nat) \<times> State" where
  "importLoop env [] imported skipped s = ((imported, skipped), s)"
| "importLoop env (entry # entries) imported skipped s =
     (let normalizedUrl = trim (d_url entry)
      in if normalizedUrl = [] then importLoop env entries imported (skipped + 1) s
         else if find (\<lambda>bookmark. url bookmark = normalizedUrl) (bookmarks s) \<noteq> None
           then importLoop env entries imported (skipped + 1) s
         else (case createBookmark env s entry of
                 (Inr snapshot, s1) \<Rightarrow> importLoop env entries (imported + 1) skipped s1
               | (Inl error, s1) \<Rightarrow> importLoop env entries (imported + 1) skipped s1))"

definition importBookmarks :: "Env \<Rightarrow> State \<Rightarrow> BookmarkDraft list \<Rightarrow> (nat \<times> nat) \<times> State" where
  "importBookmarks env s entries = importLoop env entries 0 0 s"

section \<open>Synchronisation\<close>

text \<open>
  One iteration of the \<open>for\<close> loop of \<open>sync\<close>: \<open>False\<close> when the \<open>catch\<close> block is
  reached. The operation is removed from the log by identity.
\<close>

definition requestOf :: "PendingOperation \<Rightarrow> Request" where
  "requestOf operation =
     (case operation of
        Create bookmark \<Rightarrow> Post bookmark
      | Update i updates \<Rightarrow> Put i updates
      | Delete i \<Rightarrow> DeleteReq i)"

definition syncOperation :: "Env \<Rightarrow> PendingEntry \<Rightarrow> State \<Rightarrow> bool \<times> State" where
  "syncOperation env operation s =
     (case snd operation of
        Create bookmark \<Rightarrow>
          (case apiRequest env (Post bookmark) s of
             (Failed, s1) \<Rightarrow> (False, s1)
           | (savedData, s1) \<Rightarrow>
               (True, removePending env (\<lambda>pendingOp. fst pendingOp = fst operation)
                        (absorb env savedData s1)))
      | Update i updates \<Rightarrow>
          (case apiRequest env (Put i updates) s of
             (Failed, s1) \<Rightarrow> (False, s1)
           | (savedData, s1) \<Rightarrow>
               (True, removePending env (\<lambda>pendingOp. fst pendingOp = fst operation)
                        (absorb env savedData s1)))
      | Delete i \<Rightarrow>
          (case apiRequest env (DeleteReq i) s of
             (Failed, s1) \<Rightarrow> (False, s1)
           | (_, s1) \<Rightarrow>
               (True, removePending env (\<lambda>pendingOp. fst pendingOp = fst operation) s1)))"

fun drain :: "Env \<Rightarrow> PendingEntry list \<Rightarrow> State \<Rightarrow> bool \<times> State" where
  "drain env [] s = (True, s)"
| "drain env (operation # queue) s =
     (case syncOperation env operation s of
        (False, s1) \<Rightarrow> (False, s1)
      | (True, s1) \<Rightarrow> drain env queue s1)"

text \<open>The refresh after a full drain; a failing fetch is only logged.\<close>

definition refresh :: "Env \<Rightarrow> State \<Rightarrow> State" where
  "refresh env s =
     (case fetchRemote env s of
        (Some remote, s1) \<Rightarrow> notify env (setLastSync env (persist env (s1\<lparr>bookmarks := remote\<rparr>)))
      | (None, s1) \<Rightarrow> s1)"

definition sync :: "Env \<Rightarrow> State \<Rightarrow> bool \<times> State" where
  "sync env s =
     (if pending s = [] then (True, s)
      else if navigator env = Some False then (False, s)
      else (case drain env (pending s) s of
              (False, s1) \<Rightarrow> (False, s1)
            | (True, s1) \<Rightarrow> (True, refresh env s1)))"

section \<open>Duplicate detection\<close>

text \<open>
  The \<open>Map\<close> of \<open>detectDuplicates\<close> is a list of key and group in insertion order;
  \<open>mapSet\<close> is \<open>Map.prototype.set\<close>. A bookmark with an empty url is passed over.
\<close>

fun mapSet :: "'k \<Rightarrow> 'v \<Rightarrow> ('k \<times> 'v) list \<Rightarrow> ('k \<times> 'v) list" where
  "mapSet k v [] = [(k, v)]"
| "mapSet k v (e # m) = (if fst e = k then (k, v) # m else e # mapSet k v m)"

fun groupByUrl :: "Bookmark list \<Rightarrow> (string \<times> Bookmark list) list \<Rightarrow> (string \<times> Bookmark list) list" where
  "groupByUrl [] m = m"
| "groupByUrl (bookmark # rest) m =
     (if url bookmark = [] then groupByUrl rest m
      else (let key = toLowerCase (url bookmark);
                group = (case map_of m key of None \<Rightarrow> [] | Some g \<Rightarrow> g)
            in groupByUrl rest (mapSet key (group @ [bookmark]) m)))"

definition detectDuplicates :: "State \<Rightarrow> (string \<times> Bookmark list) list" where
  "detectDuplicates s =
     filter (\<lambda>e. \<not> length (snd e) < 2) (groupByUrl (bookmarks s) [])"

section \<open>Notions used in the statements\<close>

text \<open>
  An operation that leaves the id of its target alone: an \<open>Update\<close> whose field set has
  no \<open>id\<close> key, or the id of the entry it addresses.
\<close>

definition keepsId :: "PendingOperation \<Rightarrow> bool" where
  "keepsId operation =
     (case operation of
        Update i updates \<Rightarrow> p_id updates = None \<or> p_id updates = Some i
      | _ \<Rightarrow> True)"

text \<open>The operations that only remove.\<close>

fun isDelete :: "PendingOperation \<Rightarrow> bool" where
  "isDelete (Delete i) = True"
| "isDelete _ = False"

text \<open>
  Newest first: every \<open>updatedAt\<close> denotes a date and no entry is followed by one with
  a later date.
\<close>

definition notLater :: "Env \<Rightarrow> Bookmark \<Rightarrow> Bookmark \<Rightarrow> bool" where
  "notLater env a b =
     (case (updatedTime env a, updatedTime env b) of
        (Some ta, Some tb) \<Rightarrow> tb \<le> ta
      | _ \<Rightarrow> False)"

definition newestFirst :: "Env \<Rightarrow> Bookmark list \<Rightarrow> bool" where
  "newestFirst env xs = sorted_wrt (notLater env) xs"

text \<open>The listing that \<open>fetchRemote\<close> receives in state \<open>s\<close> has a date in every entry.\<close>

definition datesParse :: "Env \<Rightarrow> State \<Rightarrow> bool" where
  "datesParse env s =
     (case api env (calls s) GetList of
        Listing raws \<Rightarrow>
          list_all (\<lambda>b. updatedTime env b \<noteq> None) (parseListing env (ticks s) raws)
      | _ \<Rightarrow> True)"

text \<open>
  The response of the remote service to the request of the \<open>j\<close>-th operation of a
  queue, when the requests of the operations before it have been sent since state \<open>s\<close>.
\<close>

definition remoteResponse :: "Env \<Rightarrow> State \<Rightarrow> PendingEntry list \<Rightarrow> nat \<Rightarrow> Response" where
  "remoteResponse env s queue j =
     api env (calls s @ map (\<lambda>e. requestOf (snd e)) (take j queue)) (requestOf (snd (queue ! j)))"

text \<open>
  The entries of the log are distinct objects, and \<open>nextRef\<close> is beyond all of them.
  \<open>recordPending\<close> and \<open>removePending\<close>, the only writers of the log, keep it so.
\<close>

definition refsFresh :: "State \<Rightarrow> bool" where
  "refsFresh s = (distinct (map fst (pending s)) \<and> list_all (\<lambda>e. fst e < nextRef s) (pending s))"

section \<open>Sample values\<close>

text \<open>
  A bookmark with the given id, url and timestamp, as \<open>parseBookmark\<close> builds it, and
  drafts with a title and a url.
\<close>

definition sample :: "string \<Rightarrow> string \<Rightarrow> string \<Rightarrow> Bookmark" where
  "sample i u t =
     \<lparr> bookmark_id = i, title = ''t'', url = u, description = [], bookmark_notes = [],
       tags = [], folder = [], createdAt = t, updatedAt = t, visitCount = 0,
       lastVisitedAt = Undefined \<rparr>"

definition sampleDraft :: "string \<Rightarrow> string \<Rightarrow> BookmarkDraft" where
  "sampleDraft t u =
     \<lparr> d_title = t, d_url = u, d_description = None, d_notes = None, d_tags = None,
       d_folder = None \<rparr>"


text \<open>
  A sample environment: the clock stands still, identifiers are numbered, two
  timestamps have their epoch milliseconds and no other string is a date, strings are
  collated bytewise, the host has \<open>structuredClone\<close> and leaves a list it cannot sort
  as it is.
\<close>

definition sampleTime :: "string \<Rightarrow> int option" where
  "sampleTime t =
     (if t = ''2024-01-01T00:00:00.000Z'' then Some 1704067200000
      else if t = ''2024-01-02T00:00:00.000Z'' then Some 1704153600000
      else None)"

fun compareBytes :: "string \<Rightarrow> string \<Rightarrow> int" where
  "compareBytes [] [] = 0"
| "compareBytes [] (y # ys) = - 1"
| "compareBytes (x # xs) [] = 1"
| "compareBytes (x # xs) (y # ys) =
     (if (of_char x :: nat) < of_char y then - 1
      else if (of_char y :: nat) < of_char x then 1
      else compareBytes xs ys)"

definition sampleEnv :: "bool option \<Rightarrow> (Request list \<Rightarrow> Request \<Rightarrow> Response) \<Rightarrow> Env" where
  "sampleEnv nav remote =
     \<lparr> navigator = nav, isBrowser = True, api = remote,
       clock = (\<lambda>n. ''2024-01-02T00:00:00.000Z''),
       uuid = (\<lambda>n. ''id-'' @ replicate n (CHR ''i'')),
       getTime = sampleTime, localeCompare = compareBytes, structuredClone = True,
       hostSort = (\<lambda>list. list) \<rparr>"

definition sampleState :: "Bookmark list \<Rightarrow> PendingEntry list \<Rightarrow> State" where
  "sampleState bs ps =
     \<lparr> bookmarks = bs, pending = ps, nextRef = Suc (foldr max (map fst ps) 0),
       storedBookmarks = map jsonBookmark bs,
       storedPending = map (\<lambda>operation. jsonOperation (snd operation)) ps,
       lastSync = None, calls = [], notified = [], ticks = 0 \<rparr>"

text \<open>A remote service that lists two bookmarks, the older one first.\<close>

definition sampleListing :: "Request list \<Rightarrow> Request \<Rightarrow> Response" where
  "sampleListing history req =
     (case req of
        GetList \<Rightarrow> Listing
          [full (sample ''a'' ''https://a.example'' ''2024-01-01T00:00:00.000Z''),
           full (sample ''b'' ''https://b.example'' ''2024-01-02T00:00:00.000Z'')]
      | _ \<Rightarrow> Failed)"

text \<open>A remote service whose third call fails and whose other calls return no body.\<close>

definition failingThird :: "Request list \<Rightarrow> Request \<Rightarrow> Response" where
  "failingThird history req = (if length history = 2 then Failed else Null)"


section \<open>Properties of the projector\<close>

subsection \<open>The replay rule\<close>

lemma findIndex_None_iff: "findIndex P xs = None \<longleftrightarrow> (\<forall>x\<in>set xs. \<not> P x)"
  by (induction xs) auto

lemma findIndex_Some_split:
  "findIndex P xs = Some idx \<Longrightarrow>
     idx < length xs \<and> P (xs ! idx) \<and> (\<forall>y\<in>set (take idx xs). \<not> P y)"
proof (induction xs arbitrary: idx)
  case Nil
  then show ?case by simp
next
  case (Cons x xs)
  show ?case
  proof (cases "P x")
    case True
    with Cons.prems show ?thesis by simp
  next
    case False
    with Cons.prems obtain j where j: "findIndex P xs = Some j" "idx = Suc j"
      by auto
    from Cons.IH[OF j(1)] False j(2) show ?thesis by auto
  qed
qed

lemma findIndex_first:
  "\<forall>y\<in>set pre. \<not> P y \<Longrightarrow> P x \<Longrightarrow> findIndex P (pre @ x # post) = Some (length pre)"
  by (induction pre) auto

lemma applyOperations_append:
  "applyOperations (xs @ ys) result = applyOperations ys (applyOperations xs result)"
  by (induction xs arbitrary: result) auto

lemma applyPendingLocally_snoc:
  "applyPendingLocally env (log @ [(r, operation)]) base =
     applyOperation (applyPendingLocally env log base) operation"
  by (simp add: applyPendingLocally_def applyOperations_append)

lemma jsonBookmark_explicit:
  "jsonBookmark b = (if lastVisitedAt b = Undefined then b\<lparr>lastVisitedAt := Absent\<rparr> else b)"
  by (simp add: jsonBookmark_def split: OptionalKey.splits)

lemma clone_explicit:
  "clone env base =
     (if structuredClone env then base
      else map (\<lambda>b. if lastVisitedAt b = Undefined then b\<lparr>lastVisitedAt := Absent\<rparr> else b) base)"
  by (simp add: clone_def jsonBookmark_explicit)

lemma id_present_iff:
  "(\<exists>x\<in>set xs. bookmark_id x = i) \<longleftrightarrow> i \<in> bookmark_id ` set xs"
  by blast

lemma applyOperation_Create:
  "applyOperation result (Create b) =
     (if bookmark_id b \<in> bookmark_id ` set result then result else result @ [b])"
  by (simp add: list_ex_iff id_present_iff)

lemma applyOperation_absent:
  "i \<notin> bookmark_id ` set result \<Longrightarrow>
     applyOperation result (Update i u) = result \<and> applyOperation result (Delete i) = result"
proof -
  assume "i \<notin> bookmark_id ` set result"
  then have "findIndex (\<lambda>b. bookmark_id b = i) result = None"
    by (auto simp: findIndex_None_iff)
  then show ?thesis by simp
qed

lemma applyOperation_present:
  assumes "result = pre @ x # post" "bookmark_id x = i" "i \<notin> bookmark_id ` set pre"
  shows "applyOperation result (Update i u) = pre @ spread x u # post \<and>
         applyOperation result (Delete i) = pre @ post"
proof -
  have "findIndex (\<lambda>b. bookmark_id b = i) result = Some (length pre)"
    unfolding assms(1) using assms(2,3) by (intro findIndex_first) blast+
  then show ?thesis
    by (simp add: assms(1) splice1_def)
qed

text \<open>
  C3. Replaying the log starts from a copy of the mirror (the mirror itself, but for a
  \<open>lastVisitedAt\<close> key holding \<open>undefined\<close>, which a host without \<open>structuredClone\<close>
  drops) and applies the operations in log order; the last operation acts on the result
  of the ones before it as follows. A Create appends its bookmark when no entry has that
  id and changes nothing otherwise. When no entry has the id, an Update and a Delete
  change nothing. Otherwise the first entry with the id is the one the Update merges
  into, key by key: a key the Update has takes the Update's value, every other key keeps
  the entry's; and it is the one the Delete removes. The replay is a total function on
  lists: no branch of it fails.
\<close>

theorem applyPendingLocally_replay_rule:
  "applyPendingLocally env [] base =
     (if structuredClone env then base
      else map (\<lambda>b. if lastVisitedAt b = Undefined then b\<lparr>lastVisitedAt := Absent\<rparr> else b) base) \<and>
   (let result = applyPendingLocally env log base;
        after = (\<lambda>operation. applyPendingLocally env (log @ [(r, operation)]) base)
    in after (Create b) =
         (if bookmark_id b \<in> bookmark_id ` set result then result else result @ [b]) \<and>
       (i \<notin> bookmark_id ` set result \<longrightarrow>
          after (Update i u) = result \<and> after (Delete i) = result) \<and>
       (result = pre @ x # post \<and> bookmark_id x = i \<and> i \<notin> bookmark_id ` set pre \<longrightarrow>
          after (Update i u) =
            pre @
            \<lparr> bookmark_id = (case p_id u of None \<Rightarrow> bookmark_id x | Some v \<Rightarrow> v),
              title = (case p_title u of None \<Rightarrow> title x | Some v \<Rightarrow> v),
              url = (case p_url u of None \<Rightarrow> url x | Some v \<Rightarrow> v),
              description = (case p_description u of None \<Rightarrow> description x | Some v \<Rightarrow> v),
              bookmark_notes = (case p_notes u of None \<Rightarrow> bookmark_notes x | Some v \<Rightarrow> v),
              tags = (case p_tags u of None \<Rightarrow> tags x | Some v \<Rightarrow> v),
              folder = (case p_folder u of None \<Rightarrow> folder x | Some v \<Rightarrow> v),
              createdAt = (case p_createdAt u of None \<Rightarrow> createdAt x | Some v \<Rightarrow> v),
              updatedAt = (case p_updatedAt u of None \<Rightarrow> updatedAt x | Some v \<Rightarrow> v),
              visitCount = (case p_visitCount u of None \<Rightarrow> visitCount x | Some v \<Rightarrow> v),
              lastVisitedAt = (if p_lastVisitedAt u = Absent then lastVisitedAt x
                               else p_lastVisitedAt u) \<rparr> # post \<and>
          after (Delete i) = pre @ post))"
proof -
  have merged: "spread x u =
            \<lparr> bookmark_id = (case p_id u of None \<Rightarrow> bookmark_id x | Some v \<Rightarrow> v),
              title = (case p_title u of None \<Rightarrow> title x | Some v \<Rightarrow> v),
              url = (case p_url u of None \<Rightarrow> url x | Some v \<Rightarrow> v),
              description = (case p_description u of None \<Rightarrow> description x | Some v \<Rightarrow> v),
              bookmark_notes = (case p_notes u of None \<Rightarrow> bookmark_notes x | Some v \<Rightarrow> v),
              tags = (case p_tags u of None \<Rightarrow> tags x | Some v \<Rightarrow> v),
              folder = (case p_folder u of None \<Rightarrow> folder x | Some v \<Rightarrow> v),
              createdAt = (case p_createdAt u of None \<Rightarrow> createdAt x | Some v \<Rightarrow> v),
              updatedAt = (case p_updatedAt u of None \<Rightarrow> updatedAt x | Some v \<Rightarrow> v),
              visitCount = (case p_visitCount u of None \<Rightarrow> visitCount x | Some v \<Rightarrow> v),
              lastVisitedAt = (if p_lastVisitedAt u = Absent then lastVisitedAt x
                               else p_lastVisitedAt u) \<rparr>"
    by (simp add: spread_def split: OptionalKey.splits)
  have start: "applyPendingLocally env [] base = clone env base"
    by (simp add: applyPendingLocally_def)
  show ?thesis
    unfolding Let_def applyPendingLocally_snoc start clone_explicit merged[symmetric]
    using applyOperation_absent[where i = i and result = "applyPendingLocally env log base" and u = u]
      applyOperation_present[where result = "applyPendingLocally env log base" and pre = pre
        and x = x and post = post and i = i and u = u]
    by (simp add: applyOperation_Create del: applyOperation.simps)
qed

theorem applyPendingLocally_replay_rule_witness:
  "applyPendingLocally (sampleEnv (Some True) (\<lambda>h r. Null))
      [(0, Create (sample ''a'' ''u2'' ''t2''))]
      [sample ''a'' ''u'' ''t'',
       sample ''b'' ''v'' ''t''\<lparr>lastVisitedAt := Present ''2024-01-01T00:00:00.000Z''\<rparr>]
     = [sample ''a'' ''u'' ''t'',
        sample ''b'' ''v'' ''t''\<lparr>lastVisitedAt := Present ''2024-01-01T00:00:00.000Z''\<rparr>] \<and>
   applyPendingLocally (sampleEnv (Some True) (\<lambda>h r. Null))
      [(0, Create (sample ''c'' ''w'' ''t''))]
      [sample ''a'' ''u'' ''t'',
       sample ''b'' ''v'' ''t''\<lparr>lastVisitedAt := Present ''2024-01-01T00:00:00.000Z''\<rparr>]
     = [sample ''a'' ''u'' ''t'',
        sample ''b'' ''v'' ''t''\<lparr>lastVisitedAt := Present ''2024-01-01T00:00:00.000Z''\<rparr>,
        sample ''c'' ''w'' ''t''] \<and>
   ''z'' \<notin> bookmark_id ` set [sample ''a'' ''u'' ''t'',
       sample ''b'' ''v'' ''t''\<lparr>lastVisitedAt := Present ''2024-01-01T00:00:00.000Z''\<rparr>] \<and>
   applyPendingLocally (sampleEnv (Some True) (\<lambda>h r. Null))
      [(0, Update ''z'' (noUpdates\<lparr>p_title := Some ''New'', p_tags := Some [''x''],
                                    p_lastVisitedAt := Undefined\<rparr>))]
      [sample ''a'' ''u'' ''t'',
       sample ''b'' ''v'' ''t''\<lparr>lastVisitedAt := Present ''2024-01-01T00:00:00.000Z''\<rparr>]
     = [sample ''a'' ''u'' ''t'',
        sample ''b'' ''v'' ''t''\<lparr>lastVisitedAt := Present ''2024-01-01T00:00:00.000Z''\<rparr>] \<and>
   applyPendingLocally (sampleEnv (Some True) (\<lambda>h r. Null)) [(0, Delete ''z'')]
      [sample ''a'' ''u'' ''t'',
       sample ''b'' ''v'' ''t''\<lparr>lastVisitedAt := Present ''2024-01-01T00:00:00.000Z''\<rparr>]
     = [sample ''a'' ''u'' ''t'',
        sample ''b'' ''v'' ''t''\<lparr>lastVisitedAt := Present ''2024-01-01T00:00:00.000Z''\<rparr>] \<and>
   bookmark_id (sample ''b'' ''v'' ''t''\<lparr>lastVisitedAt := Present ''2024-01-01T00:00:00.000Z''\<rparr>)
     = ''b'' \<and>
   ''b'' \<notin> bookmark_id ` set [sample ''a'' ''u'' ''t''] \<and>
   applyPendingLocally (sampleEnv (Some True) (\<lambda>h r. Null))
      [(0, Update ''b'' (noUpdates\<lparr>p_title := Some ''New'', p_tags := Some [''x''],
                                    p_lastVisitedAt := Undefined\<rparr>))]
      [sample ''a'' ''u'' ''t'',
       sample ''b'' ''v'' ''t''\<lparr>lastVisitedAt := Present ''2024-01-01T00:00:00.000Z''\<rparr>]
     = [sample ''a'' ''u'' ''t'', sample ''b'' ''v'' ''t''\<lparr>title := ''New'', tags := [''x'']\<rparr>] \<and>
   applyPendingLocally (sampleEnv (Some True) (\<lambda>h r. Null)) [(0, Delete ''b'')]
      [sample ''a'' ''u'' ''t'',
       sample ''b'' ''v'' ''t''\<lparr>lastVisitedAt := Present ''2024-01-01T00:00:00.000Z''\<rparr>]
     = [sample ''a'' ''u'' ''t'']"
proof -
  let ?env = "sampleEnv (Some True) (\<lambda>h r. Null)"
  let ?a = "sample ''a'' ''u'' ''t''"
  let ?b = "sample ''b'' ''v'' ''t''\<lparr>lastVisitedAt := Present ''2024-01-01T00:00:00.000Z''\<rparr>"
  let ?u = "noUpdates\<lparr>p_title := Some ''New'', p_tags := Some [''x''],
                       p_lastVisitedAt := Undefined\<rparr>"
  have sc: "structuredClone ?env"
    by (simp add: sampleEnv_def)
  show ?thesis
    using
      applyPendingLocally_replay_rule[where env = ?env and base = "[?a, ?b]" and log = "[]"
        and r = 0 and b = "sample ''a'' ''u2'' ''t2''" and i = "''z''" and u = ?u
        and pre = "[]" and x = ?a and post = "[?b]"]
      applyPendingLocally_replay_rule[where env = ?env and base = "[?a, ?b]" and log = "[]"
        and r = 0 and b = "sample ''c'' ''w'' ''t''" and i = "''b''" and u = ?u
        and pre = "[?a]" and x = ?b and post = "[]"]
    by (simp add: Let_def sc sample_def noUpdates_def)
qed

subsection \<open>Ids of the projection\<close>

lemma applyOperation_distinct:
  assumes "distinct (map bookmark_id result)" "keepsId operation"
  shows "distinct (map bookmark_id (applyOperation result operation))"
proof (cases operation)
  case (Create b)
  with assms(1) show ?thesis by (auto simp: list_ex_iff)
next
  case (Update i u)
  show ?thesis
  proof (cases "findIndex (\<lambda>b. bookmark_id b = i) result")
    case None
    with Update assms(1) show ?thesis by simp
  next
    case (Some idx)
    from findIndex_Some_split[OF Some]
    have idx: "idx < length result" "bookmark_id (result ! idx) = i" by auto
    from assms(2) Update have "bookmark_id (spread (result ! idx) u) = i"
      by (auto simp: keepsId_def spread_def idx(2))
    with idx have "map bookmark_id (result[idx := spread (result ! idx) u]) = map bookmark_id result"
      by (simp add: map_update list_update_same_conv)
    with Update Some assms(1) show ?thesis by simp
  qed
next
  case (Delete i)
  show ?thesis
  proof (cases "findIndex (\<lambda>b. bookmark_id b = i) result")
    case None
    with Delete assms(1) show ?thesis by simp
  next
    case (Some idx)
    have "distinct (take idx (map bookmark_id result) @ drop (Suc idx) (map bookmark_id result))"
      using assms(1) by (simp add: set_take_disj_set_drop_if_distinct)
    then have "distinct (map bookmark_id (take idx result @ drop (Suc idx) result))"
      by (simp add: take_map drop_map)
    with Delete Some show ?thesis by (simp add: splice1_def)
  qed
qed

text \<open>
  C4 (amended). When the ids of the mirror are pairwise distinct and no Update of the log
  carries an \<open>id\<close> key different from the id it addresses, the ids of the projection are
  pairwise distinct.
\<close>

lemma applyOperations_distinct:
  "distinct (map bookmark_id result) \<Longrightarrow> \<forall>e\<in>set log. keepsId (snd e) \<Longrightarrow>
     distinct (map bookmark_id (applyOperations log result))"
  by (induction log arbitrary: result) (auto intro: applyOperation_distinct)

lemma clone_ids: "map bookmark_id (clone env base) = map bookmark_id base"
  by (simp add: clone_def jsonBookmark_def split: OptionalKey.splits)

theorem applyPendingLocally_distinct_ids:
  "distinct (map bookmark_id base) \<Longrightarrow> \<forall>e\<in>set log. keepsId (snd e) \<Longrightarrow>
     distinct (map bookmark_id (applyPendingLocally env log base))"
  unfolding applyPendingLocally_def
  by (rule applyOperations_distinct) (simp_all add: clone_ids)

theorem applyPendingLocally_distinct_ids_witness:
  "distinct (map bookmark_id [sample ''a'' ''u'' ''t'', sample ''b'' ''v'' ''t'']) \<and>
   keepsId (Update ''a'' (noUpdates\<lparr>p_id := Some ''a'', p_url := Some ''w''\<rparr>)) \<and>
   keepsId (Create (sample ''b'' ''x'' ''t'')) \<and> keepsId (Delete ''c'') \<and>
   distinct (map bookmark_id
     (applyPendingLocally (sampleEnv (Some True) (\<lambda>h r. Null))
        [(0, Update ''a'' (noUpdates\<lparr>p_id := Some ''a'', p_url := Some ''w''\<rparr>)),
         (1, Create (sample ''b'' ''x'' ''t'')), (2, Delete ''c'')]
        [sample ''a'' ''u'' ''t'', sample ''b'' ''v'' ''t'']))"
proof -
  have h1: "distinct (map bookmark_id [sample ''a'' ''u'' ''t'', sample ''b'' ''v'' ''t''])"
    by (simp add: sample_def)
  have k: "keepsId (Update ''a'' (noUpdates\<lparr>p_id := Some ''a'', p_url := Some ''w''\<rparr>))"
    "keepsId (Create (sample ''b'' ''x'' ''t''))" "keepsId (Delete ''c'')"
    by (simp_all add: keepsId_def noUpdates_def)
  then have h2: "\<forall>e\<in>set [(0, Update ''a'' (noUpdates\<lparr>p_id := Some ''a'', p_url := Some ''w''\<rparr>)),
              (1, Create (sample ''b'' ''x'' ''t'')), (2::nat, Delete ''c'')].
      keepsId (snd e)"
    by simp
  from applyPendingLocally_distinct_ids[OF h1 h2] h1 k show ?thesis by blast
qed

text \<open>
  C4 as stated fails: an Update that addresses \<open>a\<close> and carries the key \<open>id\<close> with the
  value \<open>b\<close> renames the entry, and the projection has two entries with the id \<open>b\<close>.
\<close>

theorem applyPendingLocally_distinct_ids_counterexample:
  "distinct (map bookmark_id [sample ''a'' ''u'' ''t'', sample ''b'' ''v'' ''t'']) \<and>
   map bookmark_id
     (applyPendingLocally (sampleEnv (Some True) (\<lambda>h r. Null))
        [(0, Update ''a'' (noUpdates\<lparr>p_id := Some ''b''\<rparr>))]
        [sample ''a'' ''u'' ''t'', sample ''b'' ''v'' ''t'']) = [''b'', ''b'']"
  by (simp add: applyPendingLocally_def clone_def sampleEnv_def sample_def noUpdates_def
      spread_def)


subsection \<open>Order of the projection\<close>

lemma set_insertBy: "set (insertBy cmp x ys) = insert x (set ys)"
  by (induction ys) auto

lemma insertBy_newestFirst:
  assumes "sorted_wrt (\<lambda>a b. key b \<le> key a) ys"
  shows "sorted_wrt (\<lambda>a b. key b \<le> key a) (insertBy (\<lambda>a b. key b - key a) x ys)"
  using assms
proof (induction ys)
  case Nil
  then show ?case by simp
next
  case (Cons y ys)
  show ?case
  proof (cases "key y \<le> (key x :: int)")
    case True
    with Cons.prems show ?thesis by (auto intro: order_trans)
  next
    case False
    with Cons show ?thesis by (auto simp: set_insertBy)
  qed
qed

lemma sortBy_newestFirst:
  "sorted_wrt (\<lambda>a b. key b \<le> (key a :: int)) (sortBy (\<lambda>a b. key b - key a) xs)"
  unfolding sortBy_def by (induction xs) (simp_all add: insertBy_newestFirst)

lemma splice1_Cons:
  "splice1 0 (x # xs) = xs" "splice1 (Suc n) (x # xs) = x # splice1 n xs"
  by (simp_all add: splice1_def)

lemma set_splice1: "set (splice1 n xs) \<subseteq> set xs"
  unfolding splice1_def by (auto dest: in_set_takeD in_set_dropD)

lemma sorted_wrt_splice1: "sorted_wrt R xs \<Longrightarrow> sorted_wrt R (splice1 n xs)"
proof (induction xs arbitrary: n)
  case Nil
  then show ?case by (simp add: splice1_def)
next
  case (Cons x xs)
  show ?case
  proof (cases n)
    case 0
    with Cons.prems show ?thesis by (simp add: splice1_Cons)
  next
    case (Suc m)
    with Cons set_splice1[of m xs] show ?thesis by (auto simp: splice1_Cons)
  qed
qed

lemma applyOperation_Delete_sorted:
  "sorted_wrt R result \<Longrightarrow> isDelete operation \<Longrightarrow> sorted_wrt R (applyOperation result operation)"
  by (cases operation) (auto simp: sorted_wrt_splice1 split: option.splits)

lemma applyOperations_Delete_sorted:
  "sorted_wrt R result \<Longrightarrow> \<forall>e\<in>set log. isDelete (snd e) \<Longrightarrow>
     sorted_wrt R (applyOperations log result)"
  by (induction log arbitrary: result) (auto intro: applyOperation_Delete_sorted)

lemma insertBy_ties:
  "filter (\<lambda>b. key b = t) (insertBy (\<lambda>a b. key b - key a) x ys) =
     (if key x = (t::int) then x # filter (\<lambda>b. key b = t) ys else filter (\<lambda>b. key b = t) ys)"
  by (induction ys) auto

lemma sortBy_ties:
  "filter (\<lambda>b. key b = (t::int)) (sortBy (\<lambda>a b. key b - key a) xs) = filter (\<lambda>b. key b = t) xs"
  unfolding sortBy_def by (induction xs) (simp_all add: insertBy_ties)

lemma set_sortBy: "set (sortBy cmp xs) = set xs"
  unfolding sortBy_def by (induction xs) (simp_all add: set_insertBy)

lemma insertBy_cong:
  "\<forall>y\<in>set ys. cmp x y = cmp' x y \<Longrightarrow> insertBy cmp x ys = insertBy cmp' x ys"
  by (induction ys) auto

lemma sortBy_cong:
  "\<forall>x\<in>set xs. \<forall>y\<in>set xs. cmp x y = cmp' x y \<Longrightarrow> sortBy cmp xs = sortBy cmp' xs"
proof (induction xs)
  case Nil
  show ?case by (simp add: sortBy_def)
next
  case (Cons x xs)
  then have "sortBy cmp xs = sortBy cmp' xs"
    by simp
  moreover have "insertBy cmp x (sortBy cmp' xs) = insertBy cmp' x (sortBy cmp' xs)"
    using Cons.prems by (intro insertBy_cong) (simp add: set_sortBy)
  ultimately show ?case
    by (simp add: sortBy_def)
qed

lemma sortByUpdatedAt_valid:
  assumes "list_all (\<lambda>b. updatedTime env b \<noteq> None) list"
  shows "sortByUpdatedAt env list =
         sortBy (\<lambda>a b. the (updatedTime env b) - the (updatedTime env a)) list"
proof -
  have "\<forall>a\<in>set list. \<forall>b\<in>set list.
          compareUpdatedAt env a b = the (updatedTime env b) - the (updatedTime env a)"
  proof (intro ballI)
    fix a b
    assume "a \<in> set list" "b \<in> set list"
    with assms have "updatedTime env a \<noteq> None" "updatedTime env b \<noteq> None"
      by (simp_all add: list_all_iff)
    then obtain ta tb where "updatedTime env a = Some ta" "updatedTime env b = Some tb"
      by auto
    then show "compareUpdatedAt env a b = the (updatedTime env b) - the (updatedTime env a)"
      by (simp add: compareUpdatedAt_def)
  qed
  from sortBy_cong[OF this] assms show ?thesis
    by (simp add: sortByUpdatedAt_def consistentDates_def)
qed

lemma sortByUpdatedAt_newestFirst:
  assumes "list_all (\<lambda>b. updatedTime env b \<noteq> None) list"
  shows "newestFirst env (sortByUpdatedAt env list)"
proof -
  let ?key = "\<lambda>b. the (updatedTime env b)"
  let ?sorted = "sortBy (\<lambda>a b. ?key b - ?key a) list"
  have valid: "\<forall>b\<in>set ?sorted. updatedTime env b \<noteq> None"
    using assms by (simp add: set_sortBy list_all_iff)
  have "sorted_wrt (\<lambda>a b. ?key b \<le> ?key a) ?sorted"
    by (rule sortBy_newestFirst)
  then have "sorted_wrt (notLater env) ?sorted"
  proof (rule sorted_wrt_mono_rel[rotated])
    fix a b
    assume ab: "a \<in> set ?sorted" "b \<in> set ?sorted" and le: "?key b \<le> ?key a"
    from valid ab have "updatedTime env a \<noteq> None" "updatedTime env b \<noteq> None"
      by blast+
    then obtain ta tb where "updatedTime env a = Some ta" "updatedTime env b = Some tb"
      by auto
    with le show "notLater env a b"
      by (simp add: notLater_def)
  qed
  then show ?thesis
    by (simp add: newestFirst_def sortByUpdatedAt_valid[OF assms])
qed

lemma sortByUpdatedAt_ties:
  assumes "list_all (\<lambda>b. updatedTime env b \<noteq> None) list"
  shows "filter (\<lambda>b. updatedTime env b = Some t) (sortByUpdatedAt env list) =
         filter (\<lambda>b. updatedTime env b = Some t) list"
proof -
  let ?key = "\<lambda>b. the (updatedTime env b)"
  let ?sorted = "sortBy (\<lambda>a b. ?key b - ?key a) list"
  have same: "filter (\<lambda>b. updatedTime env b = Some t) xs = filter (\<lambda>b. ?key b = t) xs"
    if "set xs = set list" for xs
  proof (rule filter_cong[OF refl])
    fix b
    assume "b \<in> set xs"
    with that assms have "updatedTime env b \<noteq> None"
      by (simp add: list_all_iff)
    then show "(updatedTime env b = Some t) = (?key b = t)"
      by auto
  qed
  have "filter (\<lambda>b. updatedTime env b = Some t) ?sorted = filter (\<lambda>b. ?key b = t) ?sorted"
    by (rule same) (rule set_sortBy)
  also have "\<dots> = filter (\<lambda>b. ?key b = t) list"
    by (rule sortBy_ties)
  also have "\<dots> = filter (\<lambda>b. updatedTime env b = Some t) list"
    by (rule same[symmetric]) simp
  finally show ?thesis
    by (simp add: sortByUpdatedAt_valid[OF assms])
qed

lemma clone_newestFirst: "newestFirst env xs \<Longrightarrow> newestFirst env (clone env xs)"
proof -
  have "updatedAt (jsonBookmark b) = updatedAt b" for b
    by (cases "lastVisitedAt b") (simp_all add: jsonBookmark_def)
  then have "notLater env (jsonBookmark a) (jsonBookmark b) = notLater env a b" for a b
    by (simp add: notLater_def updatedTime_def)
  then show "newestFirst env xs \<Longrightarrow> newestFirst env (clone env xs)"
    by (simp add: newestFirst_def clone_def sorted_wrt_map)
qed

lemma fetchRemote_Listing:
  "api env (calls s) GetList = Listing raws \<Longrightarrow>
     fst (fetchRemote env s) = Some (sortByUpdatedAt env (parseListing env (ticks s) raws))"
  by (simp add: fetchRemote_def apiRequest_def)

lemma fetchRemote_other:
  "fst (fetchRemote env s) = Some remote \<Longrightarrow> \<forall>raws. api env (calls s) GetList \<noteq> Listing raws \<Longrightarrow>
     remote = []"
  by (cases "api env (calls s) GetList") (auto simp: fetchRemote_def apiRequest_def)

lemma fetchRemote_newestFirst:
  assumes "fst (fetchRemote env s) = Some remote" "datesParse env s"
  shows "newestFirst env remote"
proof (cases "\<exists>raws. api env (calls s) GetList = Listing raws")
  case True
  then obtain raws where l: "api env (calls s) GetList = Listing raws" ..
  with assms(2) have "list_all (\<lambda>b. updatedTime env b \<noteq> None) (parseListing env (ticks s) raws)"
    by (simp add: datesParse_def)
  from sortByUpdatedAt_newestFirst[OF this] fetchRemote_Listing[OF l] assms(1)
  show ?thesis by simp
next
  case False
  with fetchRemote_other[OF assms(1)] show ?thesis
    by (simp add: newestFirst_def)
qed

lemma fetchRemote_ties:
  assumes "fst (fetchRemote env s) = Some remote" "datesParse env s"
    and "api env (calls s) GetList = Listing raws"
  shows "filter (\<lambda>b. updatedTime env b = Some t) remote =
         filter (\<lambda>b. updatedTime env b = Some t) (parseListing env (ticks s) raws)"
proof -
  from assms(2,3) have "list_all (\<lambda>b. updatedTime env b \<noteq> None) (parseListing env (ticks s) raws)"
    by (simp add: datesParse_def)
  from sortByUpdatedAt_ties[OF this] fetchRemote_Listing[OF assms(3)] assms(1)
  show ?thesis by simp
qed

text \<open>
  C8 (amended). The projector does not sort. When every \<open>updatedAt\<close> of the listing
  denotes a date, the list that \<open>fetchRemote\<close> returns is ordered by \<open>updatedAt\<close>,
  newest first, and entries with equal times stay in the order of the server's listing,
  whatever their ids. Replaying a log that holds only Delete operations over that list,
  the empty log included, keeps the order.
\<close>

theorem projection_order:
  "fst (fetchRemote env s) = Some remote \<Longrightarrow> datesParse env s \<Longrightarrow>
   \<forall>e\<in>set log. isDelete (snd e) \<Longrightarrow>
     newestFirst env remote \<and> newestFirst env (applyPendingLocally env log remote) \<and>
     (api env (calls s) GetList = Listing raws \<longrightarrow>
        filter (\<lambda>b. getTime env (updatedAt b) = Some t) remote =
        filter (\<lambda>b. getTime env (updatedAt b) = Some t)
          (map (\<lambda>(k, item). parseBookmark env (ticks s + k) item)
             (zip [0..<length raws] raws)))"
proof -
  assume f: "fst (fetchRemote env s) = Some remote" and d: "datesParse env s"
    and l: "\<forall>e\<in>set log. isDelete (snd e)"
  have n: "newestFirst env remote"
    by (rule fetchRemote_newestFirst[OF f d])
  from clone_newestFirst[OF n] have "sorted_wrt (notLater env) (clone env remote)"
    by (simp add: newestFirst_def)
  from applyOperations_Delete_sorted[OF this l]
  have "newestFirst env (applyPendingLocally env log remote)"
    by (simp add: newestFirst_def applyPendingLocally_def)
  with n fetchRemote_ties[OF f d, of raws t] show ?thesis
    by (simp add: updatedTime_def parseListing_def)
qed

lemma fetch_sample:
  "fst (fetchRemote (sampleEnv (Some True) sampleListing) (sampleState [] [])) =
     Some [sample ''b'' ''https://b.example'' ''2024-01-02T00:00:00.000Z'',
           sample ''a'' ''https://a.example'' ''2024-01-01T00:00:00.000Z'']"
  by (simp add: fetchRemote_def apiRequest_def sampleEnv_def sampleState_def sampleListing_def
      sortByUpdatedAt_def consistentDates_def compareUpdatedAt_def updatedTime_def sortBy_def
      parseListing_def parseBookmark_def
      full_def sample_def sampleTime_def normalizeTags_def trim_def isSpace_def upt_rec)

lemma dates_sample: "datesParse (sampleEnv (Some True) sampleListing) (sampleState [] [])"
  by (simp add: datesParse_def sampleEnv_def sampleState_def sampleListing_def updatedTime_def
      parseListing_def parseBookmark_def full_def sample_def sampleTime_def upt_rec)

text \<open>
  C8 as stated fails: a Create is appended at the end whatever its \<open>updatedAt\<close>, so
  two Creates in the log, the older one first, give a projection whose second entry is
  newer than its first.
\<close>

theorem projection_order_counterexample:
  "\<not> newestFirst (sampleEnv (Some True) sampleListing)
       (applyPendingLocally (sampleEnv (Some True) sampleListing)
          [(0, Create (sample ''a'' ''https://a.example'' ''2024-01-01T00:00:00.000Z'')),
           (1, Create (sample ''b'' ''https://b.example'' ''2024-01-02T00:00:00.000Z''))] []) \<and>
   updatedTime (sampleEnv (Some True) sampleListing)
     (sample ''a'' ''https://a.example'' ''2024-01-01T00:00:00.000Z'') = Some 1704067200000 \<and>
   updatedTime (sampleEnv (Some True) sampleListing)
     (sample ''b'' ''https://b.example'' ''2024-01-02T00:00:00.000Z'') = Some 1704153600000"
  by (simp add: newestFirst_def notLater_def updatedTime_def applyPendingLocally_def clone_def
      sampleEnv_def sample_def sampleTime_def)

theorem projection_order_witness:
  "fst (fetchRemote (sampleEnv (Some True) sampleListing) (sampleState [] [])) =
     Some [sample ''b'' ''https://b.example'' ''2024-01-02T00:00:00.000Z'',
           sample ''a'' ''https://a.example'' ''2024-01-01T00:00:00.000Z''] \<and>
   datesParse (sampleEnv (Some True) sampleListing) (sampleState [] []) \<and>
   isDelete (Delete ''b'') \<and>
   api (sampleEnv (Some True) sampleListing) (calls (sampleState [] [])) GetList =
     Listing [full (sample ''a'' ''https://a.example'' ''2024-01-01T00:00:00.000Z''),
              full (sample ''b'' ''https://b.example'' ''2024-01-02T00:00:00.000Z'')] \<and>
   newestFirst (sampleEnv (Some True) sampleListing)
     [sample ''b'' ''https://b.example'' ''2024-01-02T00:00:00.000Z'',
      sample ''a'' ''https://a.example'' ''2024-01-01T00:00:00.000Z''] \<and>
   newestFirst (sampleEnv (Some True) sampleListing)
     (applyPendingLocally (sampleEnv (Some True) sampleListing) [(0, Delete ''b'')]
        [sample ''b'' ''https://b.example'' ''2024-01-02T00:00:00.000Z'',
         sample ''a'' ''https://a.example'' ''2024-01-01T00:00:00.000Z''])"
proof -
  have h2: "\<forall>e\<in>set [(0::nat, Delete ''b'')]. isDelete (snd e)"
    by simp
  have h3: "api (sampleEnv (Some True) sampleListing) (calls (sampleState [] [])) GetList =
      Listing [full (sample ''a'' ''https://a.example'' ''2024-01-01T00:00:00.000Z''),
               full (sample ''b'' ''https://b.example'' ''2024-01-02T00:00:00.000Z'')]"
    by (simp add: sampleEnv_def sampleListing_def)
  from projection_order[OF fetch_sample dates_sample h2, where t = 0] fetch_sample dates_sample h3
  show ?thesis by simp
qed


subsection \<open>\<open>sync\<close>: empty log and offline\<close>

text \<open>
  C10. With an empty pending log \<open>sync\<close> returns \<open>true\<close> and the state is the one it
  started from: no request is sent, and the collection, the log and the last-sync
  timestamp are unchanged. The environment is arbitrary, so this holds offline too.
\<close>

theorem sync_empty_log:
  "pending s = [] \<Longrightarrow> sync env s = (True, s)"
  by (simp add: sync_def)

theorem sync_empty_log_witness:
  "pending (sampleState [sample ''a'' ''u'' ''t''] []) = [] \<and>
   navigator (sampleEnv (Some False) (\<lambda>h r. Failed)) = Some False \<and>
   sync (sampleEnv (Some False) (\<lambda>h r. Failed)) (sampleState [sample ''a'' ''u'' ''t''] [])
     = (True, sampleState [sample ''a'' ''u'' ''t''] [])"
proof -
  have h: "pending (sampleState [sample ''a'' ''u'' ''t''] []) = []"
    by (simp add: sampleState_def)
  from sync_empty_log[OF h] h show ?thesis by (simp add: sampleEnv_def)
qed

text \<open>
  C1 (amended). When the environment reports itself offline and the pending log is not
  empty, \<open>sync\<close> returns \<open>false\<close> and the state is the one it started from: no request
  is sent, and the collection, the log and the last-sync timestamp are unchanged.
\<close>

theorem sync_offline:
  "navigator env = Some False \<Longrightarrow> pending s \<noteq> [] \<Longrightarrow> sync env s = (False, s)"
  by (simp add: sync_def)

theorem sync_offline_witness:
  "navigator (sampleEnv (Some False) (\<lambda>h r. Null)) = Some False \<and>
   pending (sampleState [] [(0, Delete ''a'')]) \<noteq> [] \<and>
   sync (sampleEnv (Some False) (\<lambda>h r. Null)) (sampleState [] [(0, Delete ''a'')])
     = (False, sampleState [] [(0, Delete ''a'')])"
proof -
  have h1: "navigator (sampleEnv (Some False) (\<lambda>h r. Null)) = Some False"
    by (simp add: sampleEnv_def)
  have h2: "pending (sampleState [] [(0, Delete ''a'')]) \<noteq> []"
    by (simp add: sampleState_def)
  from sync_offline[OF h1 h2] h1 h2 show ?thesis by blast
qed

text \<open>
  C1 as stated fails: the test for an empty log comes first, so offline with nothing
  pending \<open>sync\<close> returns \<open>true\<close>.
\<close>

theorem sync_offline_counterexample:
  "navigator (sampleEnv (Some False) (\<lambda>h r. Failed)) = Some False \<and>
   fst (sync (sampleEnv (Some False) (\<lambda>h r. Failed)) (sampleState [sample ''a'' ''u'' ''t''] []))
     = True"
  by (simp add: sync_def sampleEnv_def sampleState_def)

subsection \<open>\<open>sync\<close>: the drain\<close>

lemma persist_fields [simp]:
  "pending (persist env s) = pending s" "calls (persist env s) = calls s"
  "lastSync (persist env s) = lastSync s" "bookmarks (persist env s) = bookmarks s"
  "nextRef (persist env s) = nextRef s" "ticks (persist env s) = ticks s"
  "notified (persist env s) = notified s"
  by (simp_all add: persist_def)

lemma notify_fields [simp]:
  "pending (notify env s) = pending s" "calls (notify env s) = calls s"
  "lastSync (notify env s) = lastSync s" "bookmarks (notify env s) = bookmarks s"
  "nextRef (notify env s) = nextRef s" "ticks (notify env s) = ticks s"
  by (simp_all add: notify_def)

lemma upsertLocal_fields [simp]:
  "pending (upsertLocal b s) = pending s" "calls (upsertLocal b s) = calls s"
  "lastSync (upsertLocal b s) = lastSync s" "nextRef (upsertLocal b s) = nextRef s"
  by (simp_all add: upsertLocal_def split: option.splits)

lemma absorb_fields [simp]:
  "pending (absorb env resp s) = pending s" "calls (absorb env resp s) = calls s"
  "lastSync (absorb env resp s) = lastSync s" "nextRef (absorb env resp s) = nextRef s"
  by (simp_all add: absorb_def split: option.splits)

lemma removePending_fields [simp]:
  "pending (removePending env P s) = filter (\<lambda>e. \<not> P e) (pending s)"
  "calls (removePending env P s) = calls s" "lastSync (removePending env P s) = lastSync s"
  "bookmarks (removePending env P s) = bookmarks s" "nextRef (removePending env P s) = nextRef s"
  by (simp_all add: removePending_def)

lemma recordPending_fields [simp]:
  "pending (recordPending env operation s) = pending s @ [(nextRef s, operation)]"
  "calls (recordPending env operation s) = calls s"
  "lastSync (recordPending env operation s) = lastSync s"
  "bookmarks (recordPending env operation s) = bookmarks s"
  "nextRef (recordPending env operation s) = Suc (nextRef s)"
  "ticks (recordPending env operation s) = ticks s"
  by (simp_all add: recordPending_def)

lemma syncOperation_fail:
  "api env (calls s) (requestOf (snd operation)) = Failed \<Longrightarrow>
     syncOperation env operation s = (False, s\<lparr>calls := calls s @ [requestOf (snd operation)]\<rparr>)"
  by (cases "snd operation") (simp_all add: syncOperation_def apiRequest_def requestOf_def)

lemma syncOperation_ok:
  assumes "api env (calls s) (requestOf (snd operation)) \<noteq> Failed"
  shows "fst (syncOperation env operation s) = True \<and>
         pending (snd (syncOperation env operation s))
           = filter (\<lambda>e. fst e \<noteq> fst operation) (pending s) \<and>
         calls (snd (syncOperation env operation s)) = calls s @ [requestOf (snd operation)] \<and>
         lastSync (snd (syncOperation env operation s)) = lastSync s"
  using assms
  by (cases "snd operation")
    (auto simp: syncOperation_def apiRequest_def requestOf_def split: Response.splits)

lemma drain_stops:
  "pending s = queue \<Longrightarrow> distinct (map fst queue) \<Longrightarrow> k < length queue \<Longrightarrow>
   \<forall>j<k. remoteResponse env s queue j \<noteq> Failed \<Longrightarrow>
   remoteResponse env s queue k = Failed \<Longrightarrow>
     fst (drain env queue s) = False \<and>
     pending (snd (drain env queue s)) = drop k queue \<and>
     calls (snd (drain env queue s)) = calls s @ map (\<lambda>e. requestOf (snd e)) (take (Suc k) queue) \<and>
     lastSync (snd (drain env queue s)) = lastSync s"
proof (induction k arbitrary: s queue)
  case 0
  then obtain operation rest where q: "queue = operation # rest"
    by (cases queue) auto
  from 0 q have "api env (calls s) (requestOf (snd operation)) = Failed"
    by (simp add: remoteResponse_def)
  from syncOperation_fail[OF this] 0 q show ?case by simp
next
  case (Suc k)
  then obtain operation rest where q: "queue = operation # rest"
    by (cases queue) auto
  from Suc.prems(4) q have "api env (calls s) (requestOf (snd operation)) \<noteq> Failed"
    by (auto simp: remoteResponse_def)
  note ok = syncOperation_ok[OF this]
  obtain s1 where s1: "syncOperation env operation s = (True, s1)"
    using ok by (cases "syncOperation env operation s") auto
  have "fst operation \<notin> fst ` set rest"
    using Suc.prems(2) q by simp
  then have "\<forall>e\<in>set rest. fst e \<noteq> fst operation"
    by (metis imageI)
  then have "filter (\<lambda>e. fst e \<noteq> fst operation) rest = rest"
    by (simp add: filter_id_conv)
  with ok s1 Suc.prems(1) q have p1: "pending s1 = rest" by simp
  from ok s1 have c1: "calls s1 = calls s @ [requestOf (snd operation)]"
    and l1: "lastSync s1 = lastSync s" by simp_all
  have resp: "remoteResponse env s1 rest j = remoteResponse env s queue (Suc j)" for j
    by (simp add: remoteResponse_def c1 q)
  have "fst (drain env rest s1) = False \<and>
     pending (snd (drain env rest s1)) = drop k rest \<and>
     calls (snd (drain env rest s1)) = calls s1 @ map (\<lambda>e. requestOf (snd e)) (take (Suc k) rest) \<and>
     lastSync (snd (drain env rest s1)) = lastSync s1"
  proof (rule Suc.IH[OF p1])
    show "distinct (map fst rest)" using Suc.prems(2) q by simp
    show "k < length rest" using Suc.prems(3) q by simp
    show "\<forall>j<k. remoteResponse env s1 rest j \<noteq> Failed"
      using Suc.prems(4) by (simp add: resp)
    show "remoteResponse env s1 rest k = Failed"
      using Suc.prems(5) by (simp add: resp)
  qed
  with s1 c1 l1 q show ?case by simp
qed

lemma drain_all:
  "pending s = queue \<Longrightarrow> distinct (map fst queue) \<Longrightarrow>
   \<forall>j<length queue. remoteResponse env s queue j \<noteq> Failed \<Longrightarrow>
     fst (drain env queue s) = True \<and>
     pending (snd (drain env queue s)) = [] \<and>
     calls (snd (drain env queue s)) = calls s @ map (\<lambda>e. requestOf (snd e)) queue"
proof (induction queue arbitrary: s)
  case Nil
  then show ?case by simp
next
  case (Cons operation rest)
  from Cons.prems(3) have "api env (calls s) (requestOf (snd operation)) \<noteq> Failed"
    by (auto simp: remoteResponse_def)
  note ok = syncOperation_ok[OF this]
  obtain s1 where s1: "syncOperation env operation s = (True, s1)"
    using ok by (cases "syncOperation env operation s") auto
  have "fst operation \<notin> fst ` set rest"
    using Cons.prems(2) by simp
  then have "\<forall>e\<in>set rest. fst e \<noteq> fst operation"
    by (metis imageI)
  then have "filter (\<lambda>e. fst e \<noteq> fst operation) rest = rest"
    by (simp add: filter_id_conv)
  with ok s1 Cons.prems(1) have p1: "pending s1 = rest" by simp
  from ok s1 have c1: "calls s1 = calls s @ [requestOf (snd operation)]" by simp
  have resp: "remoteResponse env s1 rest j = remoteResponse env s (operation # rest) (Suc j)" for j
    by (simp add: remoteResponse_def c1)
  have "fst (drain env rest s1) = True \<and>
     pending (snd (drain env rest s1)) = [] \<and>
     calls (snd (drain env rest s1)) = calls s1 @ map (\<lambda>e. requestOf (snd e)) rest"
  proof (rule Cons.IH[OF p1])
    show "distinct (map fst rest)" using Cons.prems(2) by simp
    show "\<forall>j<length rest. remoteResponse env s1 rest j \<noteq> Failed"
      using Cons.prems(3) by (simp add: resp)
  qed
  with s1 c1 show ?case by simp
qed

lemma refresh_log:
  "pending (refresh env s) = pending s \<and> calls (refresh env s) = calls s @ [GetList]"
  by (cases "api env (calls s) GetList")
    (simp_all add: refresh_def fetchRemote_def apiRequest_def setLastSync_def)

text \<open>
  C2. Online, with a log that is not empty and whose entries are distinct objects. Let
  the remote calls of the first \<open>k\<close> operations succeed, and let the call of the
  operation at position \<open>k\<close> fail if there is one. Then the requests sent are those of
  the operations up to and including position \<open>k\<close>, one after the other in log order;
  the log that remains is the old one without its first \<open>k\<close> entries; \<open>sync\<close> returns
  \<open>true\<close> exactly when no call failed (\<open>k\<close> is the length of the log), in which case
  the log is empty and the one further request is the list refresh; and when a call
  failed nothing else is sent, the failing operation and the later ones stay queued in
  their order, and the last-sync timestamp is unchanged.
\<close>

theorem sync_stops_at_first_failure:
  assumes "navigator env \<noteq> Some False"
    and "pending s \<noteq> []"
    and "distinct (map fst (pending s))"
    and "k \<le> length (pending s)"
    and "\<forall>j<k. remoteResponse env s (pending s) j \<noteq> Failed"
    and "k < length (pending s) \<longrightarrow> remoteResponse env s (pending s) k = Failed"
  shows "fst (sync env s) = (k = length (pending s)) \<and>
         pending (snd (sync env s)) = drop k (pending s) \<and>
         calls (snd (sync env s)) =
           calls s @ map (\<lambda>e. requestOf (snd e)) (take (Suc k) (pending s)) @
           (if k = length (pending s) then [GetList] else []) \<and>
         (k < length (pending s) \<longrightarrow> lastSync (snd (sync env s)) = lastSync s)"
proof (cases "k < length (pending s)")
  case True
  with assms(6) have failed: "remoteResponse env s (pending s) k = Failed"
    by simp
  note d = drain_stops[OF refl assms(3) True assms(5) failed]
  then obtain s1 where "drain env (pending s) s = (False, s1)"
    by (cases "drain env (pending s) s") auto
  with d assms(1,2) True show ?thesis
    by (simp add: sync_def)
next
  case False
  with assms(4) have k: "k = length (pending s)"
    by simp
  note d = drain_all[OF refl assms(3) assms(5)[unfolded k]]
  then obtain s1 where s1: "drain env (pending s) s = (True, s1)"
    by (cases "drain env (pending s) s") auto
  with d have "pending s1 = []" "calls s1 = calls s @ map (\<lambda>e. requestOf (snd e)) (pending s)"
    by simp_all
  with s1 assms(1,2) k refresh_log[of env s1] show ?thesis
    by (simp add: sync_def)
qed

theorem sync_stops_at_first_failure_witness:
  "navigator (sampleEnv (Some True) failingThird) \<noteq> Some False \<and>
   fst (sync (sampleEnv (Some True) failingThird)
     (sampleState [] [(10, Delete ''a''), (11, Delete ''b''), (12, Delete ''c''),
        (13, Delete ''d''), (14, Delete ''e'')])) = False \<and>
   pending (snd (sync (sampleEnv (Some True) failingThird)
     (sampleState [] [(10, Delete ''a''), (11, Delete ''b''), (12, Delete ''c''),
        (13, Delete ''d''), (14, Delete ''e'')])))
     = [(12, Delete ''c''), (13, Delete ''d''), (14, Delete ''e'')] \<and>
   calls (snd (sync (sampleEnv (Some True) failingThird)
     (sampleState [] [(10, Delete ''a''), (11, Delete ''b''), (12, Delete ''c''),
        (13, Delete ''d''), (14, Delete ''e'')])))
     = [DeleteReq ''a'', DeleteReq ''b'', DeleteReq ''c''] \<and>
   navigator (sampleEnv (Some True) (\<lambda>h r. Null)) \<noteq> Some False \<and>
   fst (sync (sampleEnv (Some True) (\<lambda>h r. Null))
     (sampleState [] [(10, Create (sample ''a'' ''u'' ''t'')), (11, Delete ''b'')])) = True \<and>
   pending (snd (sync (sampleEnv (Some True) (\<lambda>h r. Null))
     (sampleState [] [(10, Create (sample ''a'' ''u'' ''t'')), (11, Delete ''b'')]))) = [] \<and>
   calls (snd (sync (sampleEnv (Some True) (\<lambda>h r. Null))
     (sampleState [] [(10, Create (sample ''a'' ''u'' ''t'')), (11, Delete ''b'')])))
     = [Post (sample ''a'' ''u'' ''t''), DeleteReq ''b'', GetList]"
proof -
  let ?env = "sampleEnv (Some True) failingThird"
  let ?s = "sampleState [] [(10, Delete ''a''), (11, Delete ''b''), (12, Delete ''c''),
        (13, Delete ''d''), (14, Delete ''e'')]"
  have p: "pending ?s = [(10, Delete ''a''), (11, Delete ''b''), (12, Delete ''c''),
        (13, Delete ''d''), (14, Delete ''e'')]" and c: "calls ?s = []"
    by (simp_all add: sampleState_def)
  have h1: "navigator ?env \<noteq> Some False" by (simp add: sampleEnv_def)
  have h2: "pending ?s \<noteq> []" by (simp add: p)
  have h3: "distinct (map fst (pending ?s))" by (simp add: p)
  have h4: "2 \<le> length (pending ?s)" by (simp add: p)
  have h5: "\<forall>j<2. remoteResponse ?env ?s (pending ?s) j \<noteq> Failed"
    by (simp add: remoteResponse_def sampleEnv_def failingThird_def p c)
  have h6: "2 < length (pending ?s) \<longrightarrow> remoteResponse ?env ?s (pending ?s) 2 = Failed"
    by (simp add: remoteResponse_def sampleEnv_def failingThird_def p c)
  note stops = sync_stops_at_first_failure[OF h1 h2 h3 h4 h5 h6]
  let ?ok = "sampleEnv (Some True) (\<lambda>h r. Null)"
  let ?t = "sampleState [] [(10, Create (sample ''a'' ''u'' ''t'')), (11, Delete ''b'')]"
  have q: "pending ?t = [(10, Create (sample ''a'' ''u'' ''t'')), (11, Delete ''b'')]"
    and e: "calls ?t = []"
    by (simp_all add: sampleState_def)
  have g1: "navigator ?ok \<noteq> Some False" by (simp add: sampleEnv_def)
  have g2: "pending ?t \<noteq> []" by (simp add: q)
  have g3: "distinct (map fst (pending ?t))" by (simp add: q)
  have g4: "2 \<le> length (pending ?t)" by (simp add: q)
  have g5: "\<forall>j<2. remoteResponse ?ok ?t (pending ?t) j \<noteq> Failed"
    by (simp add: remoteResponse_def sampleEnv_def)
  have g6: "2 < length (pending ?t) \<longrightarrow> remoteResponse ?ok ?t (pending ?t) 2 = Failed"
    by (simp add: q)
  note drains = sync_stops_at_first_failure[OF g1 g2 g3 g4 g5 g6]
  from stops drains h1 g1 show ?thesis
    by (simp add: p c q e requestOf_def numeral_3_eq_3)
qed


subsection \<open>Unknown ids\<close>

lemma find_None_ids:
  "i \<notin> bookmark_id ` set xs \<Longrightarrow> find (\<lambda>item. bookmark_id item = i) xs = None"
  by (induction xs) auto

lemma filter_absent_id:
  "i \<notin> bookmark_id ` set xs \<Longrightarrow> filter (\<lambda>bookmark. bookmark_id bookmark \<noteq> i) xs = xs"
  by (induction xs) auto

lemma deleteBookmark_bookmarks:
  "bookmarks (snd (deleteBookmark env s i)) = filter (\<lambda>bookmark. bookmark_id bookmark \<noteq> i) (bookmarks s)"
  by (simp add: deleteBookmark_def apiRequest_def Let_def split: Response.splits)

lemma deleteBookmark_calls:
  "calls (snd (deleteBookmark env s i)) = calls s @ [DeleteReq i]"
  by (simp add: deleteBookmark_def apiRequest_def Let_def split: Response.splits)

lemma deleteBookmark_pending:
  "pending (snd (deleteBookmark env s i)) =
     (if api env (calls s) (DeleteReq i) = Failed then pending s @ [(nextRef s, Delete i)]
      else filter (\<lambda>operation. \<not> isDeleteOf i (snd operation)) (pending s))"
  by (simp add: deleteBookmark_def apiRequest_def Let_def split: Response.splits)

lemma deleteBookmark_result:
  "fst (deleteBookmark env s i) \<noteq> Inl NotFound"
  by (simp add: deleteBookmark_def apiRequest_def Let_def split: Response.splits)

text \<open>
  C5 (amended). For an id that no entry of the collection has, \<open>updateBookmark\<close> and
  \<open>trackVisit\<close> throw the not-found error and leave the state as it was.
  \<open>deleteBookmark\<close> makes no such check: it never throws not-found, it leaves the
  collection as it was, sends the remote DELETE, and the Delete operation it appends
  stays in the log when that call fails (when the call succeeds every Delete of that id
  leaves the log).
\<close>

theorem unknown_id_rejected:
  assumes "i \<notin> bookmark_id ` set (bookmarks s)"
  shows "updateBookmark env s i updates = (Inl NotFound, s) \<and>
         trackVisit env s i = (Inl NotFound, s) \<and>
         fst (deleteBookmark env s i) \<noteq> Inl NotFound \<and>
         bookmarks (snd (deleteBookmark env s i)) = bookmarks s \<and>
         calls (snd (deleteBookmark env s i)) = calls s @ [DeleteReq i] \<and>
         pending (snd (deleteBookmark env s i)) =
           (if api env (calls s) (DeleteReq i) = Failed then pending s @ [(nextRef s, Delete i)]
            else filter (\<lambda>operation. \<not> isDeleteOf i (snd operation)) (pending s))"
proof -
  from assms have "findIndex (\<lambda>bookmark. bookmark_id bookmark = i) (bookmarks s) = None"
    by (auto simp: findIndex_None_iff)
  then have "updateBookmark env s i updates = (Inl NotFound, s)"
    by (simp add: updateBookmark_def)
  moreover have "trackVisit env s i = (Inl NotFound, s)"
    by (simp add: trackVisit_def find_None_ids[OF assms])
  ultimately show ?thesis
    using filter_absent_id[OF assms]
    by (simp add: deleteBookmark_bookmarks deleteBookmark_calls deleteBookmark_pending
        deleteBookmark_result)
qed

theorem unknown_id_rejected_witness:
  "''zz'' \<notin> bookmark_id ` set (bookmarks (sampleState [sample ''a'' ''u'' ''t''] [])) \<and>
   updateBookmark (sampleEnv (Some True) (\<lambda>h r. Null)) (sampleState [sample ''a'' ''u'' ''t''] [])
     ''zz'' (noUpdates\<lparr>p_title := Some ''x''\<rparr>)
     = (Inl NotFound, sampleState [sample ''a'' ''u'' ''t''] []) \<and>
   trackVisit (sampleEnv (Some True) (\<lambda>h r. Null)) (sampleState [sample ''a'' ''u'' ''t''] []) ''zz''
     = (Inl NotFound, sampleState [sample ''a'' ''u'' ''t''] [])"
proof -
  have h: "''zz'' \<notin> bookmark_id ` set (bookmarks (sampleState [sample ''a'' ''u'' ''t''] []))"
    by (simp add: sampleState_def sample_def)
  from unknown_id_rejected[OF h] h show ?thesis by blast
qed

text \<open>
  C5 as stated fails for delete: for an unknown id, offline, \<open>deleteBookmark\<close> returns
  the snapshot, a Delete operation is in the log, and the remote call was attempted.
\<close>

theorem unknown_id_rejected_counterexample:
  "''zz'' \<notin> bookmark_id ` set (bookmarks (sampleState [sample ''a'' ''u'' ''t''] [])) \<and>
   fst (deleteBookmark (sampleEnv (Some False) (\<lambda>h r. Failed))
          (sampleState [sample ''a'' ''u'' ''t''] []) ''zz'') = Inr [sample ''a'' ''u'' ''t''] \<and>
   pending (snd (deleteBookmark (sampleEnv (Some False) (\<lambda>h r. Failed))
          (sampleState [sample ''a'' ''u'' ''t''] []) ''zz'')) = [(Suc 0, Delete ''zz'')] \<and>
   calls (snd (deleteBookmark (sampleEnv (Some False) (\<lambda>h r. Failed))
          (sampleState [sample ''a'' ''u'' ''t''] []) ''zz'')) = [DeleteReq ''zz'']"
  by (simp add: deleteBookmark_def apiRequest_def sampleEnv_def sampleState_def sample_def
      recordPending_def notify_def persist_def getSnapshot_def clone_def)

subsection \<open>\<open>createBookmark\<close>\<close>

lemma newBookmark_fields:
  "title (newBookmark env s draft) = trim (d_title draft)"
  "url (newBookmark env s draft) = trim (d_url draft)"
  "bookmark_id (newBookmark env s draft) = uuid env (ticks s)"
  by (simp_all add: newBookmark_def parseBookmark_def)










subsection \<open>\<open>importBookmarks\<close>\<close>

lemma importLoop_counts:
  "importLoop env entries imported skipped s =
     (case importLoop env entries 0 0 s of
        ((i, k), s') \<Rightarrow> ((imported + i, skipped + k), s'))"
proof (induction entries arbitrary: imported skipped s)
  case Nil
  show ?case by simp
next
  case (Cons entry entries)
  show ?case
    apply (simp only: importLoop.simps Let_def)
    apply (subst Cons.IH)
    apply (subst (2) Cons.IH)
    apply (subst (3) Cons.IH)
    apply (subst (4) Cons.IH)
    apply (subst (5) Cons.IH)
    apply (subst (6) Cons.IH)
    apply (subst (7) Cons.IH)
    apply (subst (8) Cons.IH)
    apply (auto split: prod.splits sum.splits)
    done
qed

lemma find_url_iff:
  "find (\<lambda>bookmark. url bookmark = u) xs \<noteq> None \<longleftrightarrow> u \<in> url ` set xs"
  by (induction xs) auto

text \<open>
  C9. \<open>importBookmarks\<close> goes through the drafts in order. A draft whose url, trimmed
  as the import trims it, is empty or equal to the url of an entry of the collection at
  that moment adds one to \<open>skipped\<close> and changes nothing. Every other draft goes to
  \<open>createBookmark\<close> and adds one to \<open>imported\<close>, whether that call returns or throws;
  when its remote call fails the Create stays queued. The result is the pair of the two
  counts, and they add up to the number of drafts.
\<close>

theorem importBookmarks_counts:
  "importBookmarks env s [] = ((0, 0), s) \<and>
   importBookmarks env s (entry # entries) =
     (if trim (d_url entry) = [] \<or> trim (d_url entry) \<in> url ` set (bookmarks s)
      then (case importBookmarks env s entries of
              ((imported, skipped), s') \<Rightarrow> ((imported, skipped + 1), s'))
      else (case importBookmarks env (snd (createBookmark env s entry)) entries of
              ((imported, skipped), s') \<Rightarrow> ((imported + 1, skipped), s'))) \<and>
   (api env (calls s) (Post (newBookmark env s entry)) = Failed \<longrightarrow>
      pending (snd (createBookmark env s entry))
        = pending s @ [(nextRef s, Create (newBookmark env s entry))]) \<and>
   fst (fst (importBookmarks env s drafts)) + snd (fst (importBookmarks env s drafts))
     = length drafts"
proof -
  have step: "importBookmarks env s (entry # entries) =
     (if trim (d_url entry) = [] \<or> trim (d_url entry) \<in> url ` set (bookmarks s)
      then (case importBookmarks env s entries of
              ((imported, skipped), s') \<Rightarrow> ((imported, skipped + 1), s'))
      else (case importBookmarks env (snd (createBookmark env s entry)) entries of
              ((imported, skipped), s') \<Rightarrow> ((imported + 1, skipped), s')))" for s entry entries
    unfolding importBookmarks_def importLoop.simps Let_def find_url_iff
    apply (subst importLoop_counts)
    apply (subst (2) importLoop_counts)
    apply (subst (3) importLoop_counts)
    apply (subst (4) importLoop_counts)
    apply (auto split: prod.splits sum.splits)
    done
  have total: "fst (fst (importBookmarks env s drafts)) + snd (fst (importBookmarks env s drafts))
     = length drafts" for s
  proof (induction drafts arbitrary: s)
    case Nil
    show ?case by (simp add: importBookmarks_def)
  next
    case (Cons d ds)
    show ?case
      using Cons.IH[of s] Cons.IH[of "snd (createBookmark env s d)"]
      by (simp only: step) (auto split: prod.splits)
  qed
  have queued: "api env (calls s) (Post (newBookmark env s entry)) = Failed \<longrightarrow>
      pending (snd (createBookmark env s entry))
        = pending s @ [(nextRef s, Create (newBookmark env s entry))]"
    by (simp add: createBookmark_def Let_def apiRequest_def settle_def)
  from step total queued show ?thesis
    by (simp add: importBookmarks_def)
qed

theorem importBookmarks_counts_witness:
  "api (sampleEnv (Some True) (\<lambda>h r. Failed))
      (calls (sampleState [sample ''a'' ''https://dup.example'' ''t''] []))
      (Post (newBookmark (sampleEnv (Some True) (\<lambda>h r. Failed))
         (sampleState [sample ''a'' ''https://dup.example'' ''t''] [])
         (sampleDraft ''One'' ''https://one.example''))) = Failed \<and>
   length (pending (snd (createBookmark (sampleEnv (Some True) (\<lambda>h r. Failed))
      (sampleState [sample ''a'' ''https://dup.example'' ''t''] [])
      (sampleDraft ''One'' ''https://one.example'')))) = 1 \<and>
   fst (importBookmarks (sampleEnv (Some True) (\<lambda>h r. Failed))
      (sampleState [sample ''a'' ''https://dup.example'' ''t''] [])
      [sampleDraft ''One'' ''https://one.example'',
       sampleDraft ''Dup'' '' https://dup.example '',
       sampleDraft ''Three'' ''https://three.example'']) = (2, 1)"
proof -
  let ?env = "sampleEnv (Some True) (\<lambda>h r. Failed)"
  let ?s = "sampleState [sample ''a'' ''https://dup.example'' ''t''] []"
  let ?d1 = "sampleDraft ''One'' ''https://one.example''"
  let ?d2 = "sampleDraft ''Dup'' '' https://dup.example ''"
  let ?d3 = "sampleDraft ''Three'' ''https://three.example''"
  let ?s1 = "snd (createBookmark ?env ?s ?d1)"
  have h: "api ?env (calls ?s) (Post (newBookmark ?env ?s ?d1)) = Failed"
    by (simp add: sampleEnv_def)
  have t1: "trim (d_url ?d1) = ''https://one.example''"
    and t2: "trim (d_url ?d2) = ''https://dup.example''"
    and t3: "trim (d_url ?d3) = ''https://three.example''"
    by (simp_all add: sampleDraft_def trim_def isSpace_def)
  have b0: "url ` set (bookmarks ?s) = {''https://dup.example''}"
    by (simp add: sampleState_def sample_def)
  have u1: "url (newBookmark ?env ?s ?d1) = ''https://one.example''"
    by (simp add: newBookmark_fields t1)
  have b1: "url ` set (bookmarks ?s1) = {''https://dup.example'', ''https://one.example''}"
  proof -
    have "bookmarks ?s1 = bookmarks ?s @ [newBookmark ?env ?s ?d1]"
      by (simp add: createBookmark_def Let_def apiRequest_def settle_def sampleEnv_def)
    with b0 u1 show ?thesis by (simp add: insert_commute)
  qed
  have r3: "importBookmarks ?env ?s1 [?d3] = ((1, 0), snd (createBookmark ?env ?s1 ?d3))"
    using importBookmarks_counts[of ?env ?s1 ?d3 "[]" "[]"]
      importBookmarks_counts[of ?env "snd (createBookmark ?env ?s1 ?d3)" ?d3 "[]" "[]"]
    by (simp add: t3 b1)
  have r2: "importBookmarks ?env ?s1 [?d2, ?d3] = ((1, 1), snd (createBookmark ?env ?s1 ?d3))"
    using importBookmarks_counts[of ?env ?s1 ?d2 "[?d3]" "[]"]
    by (simp add: t2 b1 r3)
  have r1: "fst (importBookmarks ?env ?s [?d1, ?d2, ?d3]) = (2, 1)"
    using importBookmarks_counts[of ?env ?s ?d1 "[?d2, ?d3]" "[]"]
    by (simp add: t1 b0 r2)
  have p0: "pending ?s = []"
    by (simp add: sampleState_def)
  from importBookmarks_counts[of ?env ?s ?d1 "[]" "[]"] h r1 show ?thesis
    by (simp add: p0)
qed

subsection \<open>\<open>detectDuplicates\<close>\<close>

lemma map_of_mapSet: "map_of (mapSet k v m) = (map_of m)(k \<mapsto> v)"
  by (induction m) (auto simp: fun_eq_iff)

lemma keys_mapSet: "fst ` set (mapSet k v m) = insert k (fst ` set m)"
  by (induction m) auto

lemma distinct_mapSet: "distinct (map fst m) \<Longrightarrow> distinct (map fst (mapSet k v m))"
  by (induction m) (auto simp: keys_mapSet)

lemma groupByUrl_distinct:
  "distinct (map fst m) \<Longrightarrow> distinct (map fst (groupByUrl bs m))"
  by (induction bs arbitrary: m) (auto simp: Let_def distinct_mapSet)

lemma groupByUrl_lookup:
  "map_of (groupByUrl bs m) key =
     (let group = filter (\<lambda>b. url b \<noteq> [] \<and> toLowerCase (url b) = key) bs
      in if group = [] then map_of m key
         else Some ((case map_of m key of None \<Rightarrow> [] | Some g \<Rightarrow> g) @ group))"
proof (induction bs arbitrary: m)
  case Nil
  show ?case by simp
next
  case (Cons b bs)
  show ?case
  proof (cases "url b = []")
    case True
    then show ?thesis by (simp add: Cons.IH)
  next
    case False
    then show ?thesis
      by (simp add: Cons.IH Let_def map_of_mapSet)
  qed
qed

lemma map_of_filter_values:
  "distinct (map fst m) \<Longrightarrow>
     map_of (filter (\<lambda>e. Q (snd e)) m) k =
       (case map_of m k of None \<Rightarrow> None | Some v \<Rightarrow> if Q v then Some v else None)"
proof (induction m)
  case Nil
  show ?case by simp
next
  case (Cons e m)
  obtain k' v where e: "e = (k', v)" by (cases e)
  show ?case
  proof (cases "k' = k")
    case True
    with Cons.prems e have "map_of m k = None"
      by (simp add: map_of_eq_None_iff)
    with Cons True e show ?thesis by simp
  next
    case False
    with Cons e show ?thesis by simp
  qed
qed

text \<open>
  C7 (amended). \<open>detectDuplicates\<close> groups the bookmarks that have a url by the
  lower-cased url and nothing else (no default scheme, no trailing slash or fragment
  removed), keeps the order of the collection inside a group, and reports exactly the
  groups with two members or more, each key once.
\<close>

theorem detectDuplicates_groups:
  "map_of (detectDuplicates s) key =
     (let group = filter (\<lambda>b. url b \<noteq> [] \<and> toLowerCase (url b) = key) (bookmarks s)
      in if 2 \<le> length group then Some group else None) \<and>
   distinct (map fst (detectDuplicates s))"
proof -
  have d: "distinct (map fst (groupByUrl (bookmarks s) []))"
    by (rule groupByUrl_distinct) simp
  have "map_of (detectDuplicates s) key =
     (let group = filter (\<lambda>b. url b \<noteq> [] \<and> toLowerCase (url b) = key) (bookmarks s)
      in if 2 \<le> length group then Some group else None)"
    unfolding detectDuplicates_def
      map_of_filter_values[OF d, of "\<lambda>group. \<not> length group < 2"] groupByUrl_lookup
    by (auto simp: Let_def not_less)
  moreover have "distinct (map fst (detectDuplicates s))"
    unfolding detectDuplicates_def using d by (simp add: distinct_map_filter)
  ultimately show ?thesis by simp
qed

lemma toLowerCase_samples:
  "toLowerCase ''https://Example.com/'' = ''https://example.com/''"
  "toLowerCase ''example.com'' = ''example.com''"
  "toLowerCase ''https://example.com/'' = ''https://example.com/''"
  by code_simp+

text \<open>
  C7 as stated fails: \<open>https://Example.com/\<close> and \<open>example.com\<close> have different
  keys and are not reported; urls that differ only in letter case are.
\<close>

theorem detectDuplicates_counterexample:
  "detectDuplicates (sampleState [sample ''a'' ''https://Example.com/'' ''t'',
       sample ''b'' ''example.com'' ''t''] []) = [] \<and>
   detectDuplicates (sampleState [sample ''a'' ''https://Example.com/'' ''t'',
       sample ''b'' ''https://example.com/'' ''t''] [])
     = [(''https://example.com/'', [sample ''a'' ''https://Example.com/'' ''t'',
          sample ''b'' ''https://example.com/'' ''t''])]"
  by (simp add: detectDuplicates_def sampleState_def sample_def toLowerCase_samples Let_def)

subsection \<open>The log holds distinct objects\<close>

lemma refsFresh_recordPending: "refsFresh s \<Longrightarrow> refsFresh (recordPending env operation s)"
  by (force simp: refsFresh_def list_all_iff)

lemma refsFresh_removePending: "refsFresh s \<Longrightarrow> refsFresh (removePending env predicate s)"
  by (simp add: refsFresh_def list_all_iff distinct_map_filter)

end
